theory Spec2Isabelle
  imports Complex_Main "HOL-Library.Multiset"
begin

section \<open>Numbers of the host language and of decimal.js\<close>

text \<open>
  The library stores every amount in a \<open>Decimal\<close> of decimal.js, configured once at load
  time with \<open>precision: 40\<close>, \<open>rounding: ROUND_HALF_EVEN\<close>, \<open>toExpNeg: -20\<close> and
  \<open>toExpPos: 50\<close>. A finite \<open>Decimal\<close> is a decimal fraction and is modelled by the
  rational number it denotes; the three non-finite values are kept. The sign of zero is
  not modelled (\<open>-0\<close> is identified with \<open>0\<close>, so a zero divisor is \<open>+0\<close>), and
  neither are the exponent limits \<open>minE\<close> and \<open>maxE\<close> of decimal.js (\<open>\<plusminus>9e15\<close> by default).
\<close>

subsection \<open>Rounding to an integer\<close>

datatype Rounding =
    ROUND_UP | ROUND_DOWN | ROUND_CEIL | ROUND_FLOOR
  | ROUND_HALF_UP | ROUND_HALF_DOWN | ROUND_HALF_EVEN | ROUND_HALF_CEIL | ROUND_HALF_FLOOR

definition round_half_even :: "rat \<Rightarrow> int" where
  "round_half_even q =
     (let f = \<lfloor>q\<rfloor>; d = q - of_int f
      in if d < 1 / 2 then f else if 1 / 2 < d then f + 1 else if even f then f else f + 1)"

definition trunc :: "rat \<Rightarrow> int" where
  "trunc q = (if 0 \<le> q then \<lfloor>q\<rfloor> else \<lceil>q\<rceil>)"

fun round_int :: "Rounding \<Rightarrow> rat \<Rightarrow> int" where
  "round_int ROUND_UP q = (if 0 \<le> q then \<lceil>q\<rceil> else \<lfloor>q\<rfloor>)"
| "round_int ROUND_DOWN q = trunc q"
| "round_int ROUND_CEIL q = \<lceil>q\<rceil>"
| "round_int ROUND_FLOOR q = \<lfloor>q\<rfloor>"
| "round_int ROUND_HALF_UP q = (if 0 \<le> q then \<lfloor>q + 1 / 2\<rfloor> else \<lceil>q - 1 / 2\<rceil>)"
| "round_int ROUND_HALF_DOWN q = (if 0 \<le> q then \<lceil>q - 1 / 2\<rceil> else \<lfloor>q + 1 / 2\<rfloor>)"
| "round_int ROUND_HALF_EVEN q = round_half_even q"
| "round_int ROUND_HALF_CEIL q = \<lfloor>q + 1 / 2\<rfloor>"
| "round_int ROUND_HALF_FLOOR q = \<lceil>q - 1 / 2\<rceil>"

subsection \<open>Rounding to significant digits\<close>

text \<open>\<open>ndigits b n\<close> is the number of base-\<open>b\<close> digits of a positive integer \<open>n\<close>.\<close>

function ndigits :: "int \<Rightarrow> int \<Rightarrow> nat" where
  "ndigits b n = (if 0 < n \<and> 1 < b then Suc (ndigits b (n div b)) else 0)"
  by pat_completeness auto
termination
  by (relation "measure (\<lambda>(b, n). nat n)") (auto simp: int_div_less_self)

declare ndigits.simps [simp del]

text \<open>For \<open>0 < q\<close>, \<open>ilog b q\<close> is the exponent \<open>e\<close> with \<open>b ^ e \<le> q < b ^ (e + 1)\<close>.\<close>

definition ilog :: "int \<Rightarrow> rat \<Rightarrow> int" where
  "ilog b q = (if 1 \<le> q then int (ndigits b \<lfloor>q\<rfloor>) - 1
               else - int (ndigits b (\<lceil>1 / q\<rceil> - 1)))"

definition precision :: int where
  "precision = 40"

text \<open>
  Every arithmetic method of \<open>Decimal\<close> rounds its exact result to \<open>precision\<close>
  significant digits in the configured mode \<open>ROUND_HALF_EVEN\<close>.
\<close>

definition round_sd :: "rat \<Rightarrow> rat" where
  "round_sd q =
     (if q = 0 then 0
      else let s = power_int 10 (ilog 10 \<bar>q\<bar> - (precision - 1))
           in of_int (round_half_even (q / s)) * s)"

subsection \<open>The Decimal type\<close>

datatype Decimal = Fin rat | NaN | PInf | NInf

fun Decimal_neg :: "Decimal \<Rightarrow> Decimal" where
  "Decimal_neg (Fin a) = Fin (- a)"
| "Decimal_neg NaN = NaN"
| "Decimal_neg PInf = NInf"
| "Decimal_neg NInf = PInf"

fun Decimal_abs :: "Decimal \<Rightarrow> Decimal" where
  "Decimal_abs (Fin a) = Fin \<bar>a\<bar>"
| "Decimal_abs NaN = NaN"
| "Decimal_abs PInf = PInf"
| "Decimal_abs NInf = PInf"

fun Decimal_add :: "Decimal \<Rightarrow> Decimal \<Rightarrow> Decimal" where
  "Decimal_add (Fin a) (Fin b) = Fin (round_sd (a + b))"
| "Decimal_add NaN _ = NaN"
| "Decimal_add _ NaN = NaN"
| "Decimal_add PInf NInf = NaN"
| "Decimal_add NInf PInf = NaN"
| "Decimal_add PInf _ = PInf"
| "Decimal_add _ PInf = PInf"
| "Decimal_add NInf _ = NInf"
| "Decimal_add _ NInf = NInf"

definition Decimal_sub :: "Decimal \<Rightarrow> Decimal \<Rightarrow> Decimal" where
  "Decimal_sub x y = Decimal_add x (Decimal_neg y)"

text \<open>The sign of a product or quotient with an infinite operand.\<close>

definition signed_inf :: "bool \<Rightarrow> Decimal" where
  "signed_inf negative = (if negative then NInf else PInf)"

fun Decimal_mul :: "Decimal \<Rightarrow> Decimal \<Rightarrow> Decimal" where
  "Decimal_mul (Fin a) (Fin b) = Fin (round_sd (a * b))"
| "Decimal_mul NaN _ = NaN"
| "Decimal_mul _ NaN = NaN"
| "Decimal_mul (Fin a) PInf = (if a = 0 then NaN else signed_inf (a < 0))"
| "Decimal_mul (Fin a) NInf = (if a = 0 then NaN else signed_inf (0 < a))"
| "Decimal_mul PInf (Fin b) = (if b = 0 then NaN else signed_inf (b < 0))"
| "Decimal_mul NInf (Fin b) = (if b = 0 then NaN else signed_inf (0 < b))"
| "Decimal_mul PInf PInf = PInf"
| "Decimal_mul NInf NInf = PInf"
| "Decimal_mul PInf NInf = NInf"
| "Decimal_mul NInf PInf = NInf"

text \<open>
  Division never throws in decimal.js: a finite non-zero value divided by zero is an
  infinity, and \<open>0 / 0\<close> is \<open>NaN\<close>. The zero divisor is \<open>+0\<close> here, so the sign of the
  infinity is the sign of the dividend.
\<close>

fun Decimal_div :: "Decimal \<Rightarrow> Decimal \<Rightarrow> Decimal" where
  "Decimal_div (Fin a) (Fin b) =
     (if b = 0 then (if a = 0 then NaN else signed_inf (a < 0))
      else Fin (round_sd (a / b)))"
| "Decimal_div NaN _ = NaN"
| "Decimal_div _ NaN = NaN"
| "Decimal_div (Fin a) PInf = Fin 0"
| "Decimal_div (Fin a) NInf = Fin 0"
| "Decimal_div PInf (Fin b) = signed_inf (b < 0)"
| "Decimal_div NInf (Fin b) = signed_inf (0 \<le> b)"
| "Decimal_div PInf PInf = NaN"
| "Decimal_div PInf NInf = NaN"
| "Decimal_div NInf PInf = NaN"
| "Decimal_div NInf NInf = NaN"

text \<open>\<open>new Decimal(10).pow(n)\<close> for a natural number \<open>n\<close>: one significant digit, exact.\<close>

definition Decimal_pow10 :: "nat \<Rightarrow> Decimal" where
  "Decimal_pow10 n = Fin (10 ^ n)"

text \<open>
  \<open>toDecimalPlaces(dp, rm)\<close> rounds to \<open>dp\<close> decimal places in mode \<open>rm\<close>; it is not
  limited by \<open>precision\<close> and returns a non-finite value unchanged.
\<close>

fun toDecimalPlaces :: "nat \<Rightarrow> Rounding \<Rightarrow> Decimal \<Rightarrow> Decimal" where
  "toDecimalPlaces dp rm (Fin a) = Fin (of_int (round_int rm (a * 10 ^ dp)) / 10 ^ dp)"
| "toDecimalPlaces dp rm NaN = NaN"
| "toDecimalPlaces dp rm PInf = PInf"
| "toDecimalPlaces dp rm NInf = NInf"

fun Decimal_isZero :: "Decimal \<Rightarrow> bool" where
  "Decimal_isZero (Fin a) = (a = 0)"
| "Decimal_isZero _ = False"

text \<open>Comparisons: \<open>NaN\<close> compares false with everything, itself included.\<close>

fun Decimal_lt :: "Decimal \<Rightarrow> Decimal \<Rightarrow> bool" where
  "Decimal_lt (Fin a) (Fin b) = (a < b)"
| "Decimal_lt NaN _ = False"
| "Decimal_lt _ NaN = False"
| "Decimal_lt _ NInf = False"
| "Decimal_lt NInf _ = True"
| "Decimal_lt PInf _ = False"
| "Decimal_lt _ PInf = True"

fun Decimal_equals :: "Decimal \<Rightarrow> Decimal \<Rightarrow> bool" where
  "Decimal_equals (Fin a) (Fin b) = (a = b)"
| "Decimal_equals PInf PInf = True"
| "Decimal_equals NInf NInf = True"
| "Decimal_equals _ _ = False"

definition Decimal_gt :: "Decimal \<Rightarrow> Decimal \<Rightarrow> bool" where
  "Decimal_gt x y = Decimal_lt y x"

definition Decimal_lte :: "Decimal \<Rightarrow> Decimal \<Rightarrow> bool" where
  "Decimal_lte x y = (Decimal_lt x y \<or> Decimal_equals x y)"

definition Decimal_gte :: "Decimal \<Rightarrow> Decimal \<Rightarrow> bool" where
  "Decimal_gte x y = (Decimal_lt y x \<or> Decimal_equals x y)"

fun Decimal_isFinite :: "Decimal \<Rightarrow> bool" where
  "Decimal_isFinite (Fin a) = True"
| "Decimal_isFinite _ = False"

fun Decimal_isInteger :: "Decimal \<Rightarrow> bool" where
  "Decimal_isInteger (Fin a) = (of_int \<lfloor>a\<rfloor> = a)"
| "Decimal_isInteger _ = False"

subsection \<open>Numbers of the host language\<close>

text \<open>
  A \<open>number\<close> is an IEEE 754 binary64 value: a finite one is modelled by the rational
  it denotes (again without the sign of zero). \<open>double_round\<close> is the correctly rounded
  conversion of an exact value to binary64 (nearest, ties to even, gradual underflow,
  overflow to an infinity), which is what \<open>+\<close> and \<open>-\<close> on numbers and the conversion
  of a decimal string to a number compute.
\<close>

datatype number = Num rat | NumNaN | NumPInf | NumNInf

definition double_round :: "rat \<Rightarrow> number" where
  "double_round q =
     (if q = 0 then Num 0
      else let e = max (ilog 2 \<bar>q\<bar>) (- 1022);
               ulp = power_int 2 (e - 52);
               r = of_int (round_half_even (q / ulp)) * ulp
           in if 2 ^ 1024 \<le> \<bar>r\<bar> then (if 0 < q then NumPInf else NumNInf) else Num r)"

text \<open>
  \<open>binary64_nearest q\<close> is the value \<open>double_round\<close> rounds \<open>q\<close> to before it tests for
  overflow, and \<open>is_number r\<close> says that the rational \<open>r\<close> is a finite binary64 value:
  converting it changes nothing.
\<close>

definition binary64_nearest :: "rat \<Rightarrow> rat" where
  "binary64_nearest q =
     (if q = 0 then 0
      else let e = max (ilog 2 \<bar>q\<bar>) (- 1022);
               ulp = power_int 2 (e - 52)
           in of_int (round_half_even (q / ulp)) * ulp)"

definition is_number :: "rat \<Rightarrow> bool" where
  "is_number r \<longleftrightarrow> double_round r = Num r"

fun number_neg :: "number \<Rightarrow> number" where
  "number_neg (Num a) = Num (- a)"
| "number_neg NumNaN = NumNaN"
| "number_neg NumPInf = NumNInf"
| "number_neg NumNInf = NumPInf"

fun number_add :: "number \<Rightarrow> number \<Rightarrow> number" where
  "number_add (Num a) (Num b) = double_round (a + b)"
| "number_add NumNaN _ = NumNaN"
| "number_add _ NumNaN = NumNaN"
| "number_add NumPInf NumNInf = NumNaN"
| "number_add NumNInf NumPInf = NumNaN"
| "number_add NumPInf _ = NumPInf"
| "number_add _ NumPInf = NumPInf"
| "number_add NumNInf _ = NumNInf"
| "number_add _ NumNInf = NumNInf"

definition number_sub :: "number \<Rightarrow> number \<Rightarrow> number" where
  "number_sub x y = number_add x (number_neg y)"

text \<open>\<open>x <= 0\<close> on numbers; false for \<open>NaN\<close>.\<close>

fun number_le_zero :: "number \<Rightarrow> bool" where
  "number_le_zero (Num a) = (a \<le> 0)"
| "number_le_zero NumNInf = True"
| "number_le_zero _ = False"

text \<open>\<open>Decimal.toNumber()\<close>: the number nearest to the decimal value.\<close>

fun Decimal_toNumber :: "Decimal \<Rightarrow> number" where
  "Decimal_toNumber (Fin a) = double_round a"
| "Decimal_toNumber NaN = NumNaN"
| "Decimal_toNumber PInf = NumPInf"
| "Decimal_toNumber NInf = NumNInf"

text \<open>
  \<open>new Decimal(v)\<close> for a number \<open>v\<close> reads the digits of \<open>v.toString()\<close>: the decimal
  with the fewest significant digits that converts back to \<open>v\<close> (the nearer one when two
  of that length do). An integer of magnitude at most \<open>2 ^ 53\<close> prints as itself.
  \<open>shortest_from x k fuel\<close> tries \<open>k, k + 1, \<dots>\<close> significant digits; seventeen always
  suffice for a binary64 value.
\<close>

fun shortest_from :: "rat \<Rightarrow> nat \<Rightarrow> nat \<Rightarrow> rat" where
  "shortest_from x k 0 = x"
| "shortest_from x k (Suc fuel) =
     (let scale = power_int 10 (ilog 10 x + 1 - int k);
          lo = of_int \<lfloor>x / scale\<rfloor> * scale;
          hi = lo + scale;
          oklo = (double_round lo = Num x);
          okhi = (double_round hi = Num x)
      in if oklo \<and> okhi then (if x - lo \<le> hi - x then lo else hi)
         else if oklo then lo
         else if okhi then hi
         else shortest_from x (Suc k) fuel)"

definition shortest_decimal :: "rat \<Rightarrow> rat" where
  "shortest_decimal q =
     (if of_int \<lfloor>q\<rfloor> = q \<and> \<bar>q\<bar> \<le> 2 ^ 53 then q
      else sgn q * shortest_from \<bar>q\<bar> 1 17)"

fun Decimal_of_number :: "number \<Rightarrow> Decimal" where
  "Decimal_of_number (Num a) = Fin (shortest_decimal a)"
| "Decimal_of_number NumNaN = NaN"
| "Decimal_of_number NumPInf = PInf"
| "Decimal_of_number NumNInf = NInf"

section \<open>Currencies\<close>

text \<open>
  \<open>CurrencyDefinition\<close> and the table \<open>CURRENCIES\<close> of \<^verbatim>\<open>currency.ts\<close>. Symbols outside
  ASCII are written as their UTF-8 bytes. A lookup \<open>CURRENCIES[code]\<close> that finds no
  entry yields \<open>undefined\<close>, here \<open>None\<close>. The table is an object literal, so in the
  source a lookup of one of \<open>Object_prototype_keys\<close> finds the member every object
  inherits instead of \<open>undefined\<close>; the map \<open>CURRENCIES\<close> has the entries of the table
  only, and says nothing true about those keys.
\<close>

record CurrencyDefinition =
  code :: string
  symbol :: string
  minorUnits :: nat
  name :: string

definition PHP :: CurrencyDefinition where
  "PHP = \<lparr>code = ''PHP'', symbol = [CHR 0xE2, CHR 0x82, CHR 0xB1], minorUnits = 2,
          name = ''Philippine Peso''\<rparr>"

definition CURRENCIES_entries :: "(string \<times> CurrencyDefinition) list" where
  "CURRENCIES_entries = [
    (''USD'', \<lparr>code = ''USD'', symbol = ''$'', minorUnits = 2, name = ''US Dollar''\<rparr>),
    (''EUR'', \<lparr>code = ''EUR'', symbol = [CHR 0xE2, CHR 0x82, CHR 0xAC], minorUnits = 2, name = ''Euro''\<rparr>),
    (''JPY'', \<lparr>code = ''JPY'', symbol = [CHR 0xC2, CHR 0xA5], minorUnits = 0, name = ''Yen''\<rparr>),
    (''GBP'', \<lparr>code = ''GBP'', symbol = [CHR 0xC2, CHR 0xA3], minorUnits = 2, name = ''Pound Sterling''\<rparr>),
    (''CHF'', \<lparr>code = ''CHF'', symbol = ''CHF'', minorUnits = 2, name = ''Swiss Franc''\<rparr>),
    (''AUD'', \<lparr>code = ''AUD'', symbol = ''$'', minorUnits = 2, name = ''Australian Dollar''\<rparr>),
    (''CAD'', \<lparr>code = ''CAD'', symbol = ''$'', minorUnits = 2, name = ''Canadian Dollar''\<rparr>),
    (''CNY'', \<lparr>code = ''CNY'', symbol = [CHR 0xC2, CHR 0xA5], minorUnits = 2, name = ''Yuan Renminbi''\<rparr>),
    (''HKD'', \<lparr>code = ''HKD'', symbol = ''$'', minorUnits = 2, name = ''Hong Kong Dollar''\<rparr>),
    (''SGD'', \<lparr>code = ''SGD'', symbol = ''$'', minorUnits = 2, name = ''Singapore Dollar''\<rparr>),
    (''PHP'', PHP),
    (''KRW'', \<lparr>code = ''KRW'', symbol = [CHR 0xE2, CHR 0x82, CHR 0xA9], minorUnits = 0, name = ''Won''\<rparr>),
    (''INR'', \<lparr>code = ''INR'', symbol = [CHR 0xE2, CHR 0x82, CHR 0xB9], minorUnits = 2, name = ''Indian Rupee''\<rparr>),
    (''IDR'', \<lparr>code = ''IDR'', symbol = ''Rp'', minorUnits = 2, name = ''Rupiah''\<rparr>),
    (''THB'', \<lparr>code = ''THB'', symbol = [CHR 0xE0, CHR 0xB8, CHR 0xBF], minorUnits = 2, name = ''Baht''\<rparr>),
    (''MYR'', \<lparr>code = ''MYR'', symbol = ''RM'', minorUnits = 2, name = ''Ringgit''\<rparr>),
    (''VND'', \<lparr>code = ''VND'', symbol = [CHR 0xE2, CHR 0x82, CHR 0xAB], minorUnits = 0, name = ''Dong''\<rparr>),
    (''KWD'', \<lparr>code = ''KWD'', symbol = [CHR 0xD8, CHR 0xAF, CHR 0x2E, CHR 0xD9, CHR 0x83], minorUnits = 3, name = ''Kuwaiti Dinar''\<rparr>),
    (''BHD'', \<lparr>code = ''BHD'', symbol = [CHR 0x2E, CHR 0xD8, CHR 0xAF, CHR 0x2E, CHR 0xD8, CHR 0xA8], minorUnits = 3, name = ''Bahraini Dinar''\<rparr>),
    (''JOD'', \<lparr>code = ''JOD'', symbol = [CHR 0xD8, CHR 0xAF, CHR 0x2E, CHR 0xD8, CHR 0xA7], minorUnits = 3, name = ''Jordanian Dinar''\<rparr>),
    (''CLP'', \<lparr>code = ''CLP'', symbol = ''$'', minorUnits = 0, name = ''Chilean Peso''\<rparr>),
    (''COP'', \<lparr>code = ''COP'', symbol = ''$'', minorUnits = 2, name = ''Colombian Peso''\<rparr>),
    (''MXN'', \<lparr>code = ''MXN'', symbol = ''$'', minorUnits = 2, name = ''Mexican Peso''\<rparr>),
    (''BRL'', \<lparr>code = ''BRL'', symbol = ''R$'', minorUnits = 2, name = ''Brazilian Real''\<rparr>),
    (''ARS'', \<lparr>code = ''ARS'', symbol = ''$'', minorUnits = 2, name = ''Argentine Peso''\<rparr>),
    (''ZAR'', \<lparr>code = ''ZAR'', symbol = ''R'', minorUnits = 2, name = ''Rand''\<rparr>),
    (''NGN'', \<lparr>code = ''NGN'', symbol = [CHR 0xE2, CHR 0x82, CHR 0xA6], minorUnits = 2, name = ''Naira''\<rparr>),
    (''KES'', \<lparr>code = ''KES'', symbol = ''KSh'', minorUnits = 2, name = ''Kenyan Shilling''\<rparr>),
    (''EGP'', \<lparr>code = ''EGP'', symbol = [CHR 0xC2, CHR 0xA3], minorUnits = 2, name = ''Egyptian Pound''\<rparr>),
    (''RUB'', \<lparr>code = ''RUB'', symbol = [CHR 0xE2, CHR 0x82, CHR 0xBD], minorUnits = 2, name = ''Russian Ruble''\<rparr>),
    (''TRY'', \<lparr>code = ''TRY'', symbol = [CHR 0xE2, CHR 0x82, CHR 0xBA], minorUnits = 2, name = ''Turkish Lira''\<rparr>),
    (''PLN'', \<lparr>code = ''PLN'', symbol = [CHR 0x7A, CHR 0xC5, CHR 0x82], minorUnits = 2, name = ''Zloty''\<rparr>),
    (''CZK'', \<lparr>code = ''CZK'', symbol = [CHR 0x4B, CHR 0xC4, CHR 0x8D], minorUnits = 2, name = ''Czech Koruna''\<rparr>),
    (''HUF'', \<lparr>code = ''HUF'', symbol = ''Ft'', minorUnits = 2, name = ''Forint''\<rparr>)]"

definition CURRENCIES :: "string \<rightharpoonup> CurrencyDefinition" where
  "CURRENCIES = map_of CURRENCIES_entries"

definition Object_prototype_keys :: "string list" where
  "Object_prototype_keys =
     [''constructor'', ''hasOwnProperty'', ''isPrototypeOf'', ''propertyIsEnumerable'',
      ''toLocaleString'', ''toString'', ''valueOf'', ''__proto__'', ''__defineGetter__'',
      ''__defineSetter__'', ''__lookupGetter__'', ''__lookupSetter__'']"

text \<open>Three entries of the table by name, for concrete instances.\<close>

definition USD :: CurrencyDefinition where
  "USD = \<lparr>code = ''USD'', symbol = ''$'', minorUnits = 2, name = ''US Dollar''\<rparr>"

definition EUR :: CurrencyDefinition where
  "EUR = \<lparr>code = ''EUR'', symbol = [CHR 0xE2, CHR 0x82, CHR 0xAC], minorUnits = 2,
          name = ''Euro''\<rparr>"

definition JPY :: CurrencyDefinition where
  "JPY = \<lparr>code = ''JPY'', symbol = [CHR 0xC2, CHR 0xA5], minorUnits = 0, name = ''Yen''\<rparr>"

section \<open>MajikMoney\<close>

text \<open>
  Every \<open>throw new Error(...)\<close> of \<^verbatim>\<open>majik-money.ts\<close> is one constructor; the last two
  are the errors raised by the host language and by decimal.js on an argument they
  reject.
\<close>

datatype error =
    UnsupportedCurrency      \<comment> \<open>\<open>Unsupported currency\<close>\<close>
  | InvalidCurrencyType      \<comment> \<open>\<open>Invalid currency type. Expected string.\<close>\<close>
  | CurrencyMismatch         \<comment> \<open>\<open>Currency mismatch ...\<close>\<close>
  | DivisionByZero           \<comment> \<open>\<open>Cannot divide by zero money amount\<close>, \<open>Division by zero in MajikMoney.ratio()\<close>\<close>
  | InvalidParts             \<comment> \<open>\<open>Number of parts must be > 0\<close>\<close>
  | NoValues                 \<comment> \<open>\<open>No values provided\<close>\<close>
  | LengthMismatch           \<comment> \<open>\<open>Values and weights length mismatch\<close>\<close>
  | RangeError               \<comment> \<open>\<open>Array(n)\<close> with an invalid length\<close>
  | DecimalError             \<comment> \<open>\<open>new Decimal(s)\<close> on a string that is no number\<close>

record MajikMoney =
  amount :: Decimal
  currency :: CurrencyDefinition

text \<open>
  The constructor. Its second parameter has the default value \<open>CURRENCIES['PHP']\<close>,
  which the language substitutes when the argument is \<open>undefined\<close> (\<open>None\<close>).
  \<open>toDecimalPlaces(0)\<close> without a mode uses the configured \<open>ROUND_HALF_EVEN\<close>.
\<close>

definition new_MajikMoney :: "Decimal \<Rightarrow> CurrencyDefinition option \<Rightarrow> MajikMoney" where
  "new_MajikMoney a c =
     \<lparr>amount = toDecimalPlaces 0 ROUND_HALF_EVEN a,
      currency = (case c of None \<Rightarrow> PHP | Some d \<Rightarrow> d)\<rparr>"

subsection \<open>Factories\<close>

definition fromMinor :: "Decimal \<Rightarrow> string \<Rightarrow> MajikMoney" where
  "fromMinor minor currencyCode = new_MajikMoney minor (CURRENCIES currencyCode)"

definition fromMajor :: "Decimal \<Rightarrow> string \<Rightarrow> Rounding \<Rightarrow> error + MajikMoney" where
  "fromMajor a currencyCode rounding =
     (case CURRENCIES currencyCode of
        None \<Rightarrow> Inl UnsupportedCurrency
      | Some c \<Rightarrow>
          let factor = Decimal_pow10 (minorUnits c);
              minor = Decimal_mul a factor
          in Inr (new_MajikMoney (toDecimalPlaces 0 rounding minor) (Some c)))"

subsection \<open>Conversions\<close>

definition toMajor :: "MajikMoney \<Rightarrow> number" where
  "toMajor m = Decimal_toNumber (Decimal_div (amount m) (Decimal_pow10 (minorUnits (currency m))))"

definition toMajorDecimal :: "MajikMoney \<Rightarrow> Decimal" where
  "toMajorDecimal m = Decimal_div (amount m) (Decimal_pow10 (minorUnits (currency m)))"

definition toMinor :: "MajikMoney \<Rightarrow> number" where
  "toMinor m = Decimal_toNumber (amount m)"

subsection \<open>Arithmetic and comparison\<close>

definition assertSameCurrency :: "MajikMoney \<Rightarrow> MajikMoney \<Rightarrow> error + unit" where
  "assertSameCurrency this other =
     (if code (currency this) \<noteq> code (currency other) then Inl CurrencyMismatch else Inr ())"

definition add :: "MajikMoney \<Rightarrow> MajikMoney \<Rightarrow> error + MajikMoney" where
  "add this other =
     (case assertSameCurrency this other of
        Inl e \<Rightarrow> Inl e
      | Inr _ \<Rightarrow> Inr (new_MajikMoney (Decimal_add (amount this) (amount other)) (Some (currency this))))"

definition subtract :: "MajikMoney \<Rightarrow> MajikMoney \<Rightarrow> error + MajikMoney" where
  "subtract this other =
     (case assertSameCurrency this other of
        Inl e \<Rightarrow> Inl e
      | Inr _ \<Rightarrow> Inr (new_MajikMoney (Decimal_sub (amount this) (amount other)) (Some (currency this))))"

definition multiply :: "MajikMoney \<Rightarrow> Decimal \<Rightarrow> Rounding \<Rightarrow> MajikMoney" where
  "multiply this factor rounding =
     (let result = Decimal_mul (amount this) factor
      in new_MajikMoney (toDecimalPlaces 0 rounding result) (Some (currency this)))"

definition divide_money :: "MajikMoney \<Rightarrow> Decimal \<Rightarrow> Rounding \<Rightarrow> MajikMoney" where
  "divide_money this divisor rounding =
     (let result = Decimal_div (amount this) divisor
      in new_MajikMoney (toDecimalPlaces 0 rounding result) (Some (currency this)))"

definition invertDivide :: "MajikMoney \<Rightarrow> Decimal \<Rightarrow> Rounding \<Rightarrow> error + MajikMoney" where
  "invertDivide this dividend rounding =
     (let majorThis = toMajorDecimal this
      in if Decimal_isZero majorThis then Inl DivisionByZero
         else let resultMajor = Decimal_div dividend majorThis
              in fromMajor resultMajor (code (currency this)) rounding)"

definition ratio :: "MajikMoney \<Rightarrow> MajikMoney \<Rightarrow> error + number" where
  "ratio this other =
     (case assertSameCurrency this other of
        Inl e \<Rightarrow> Inl e
      | Inr _ \<Rightarrow>
          if Decimal_isZero (amount other) then Inl DivisionByZero
          else Inr (Decimal_toNumber (Decimal_div (amount this) (amount other))))"

definition equals :: "MajikMoney \<Rightarrow> MajikMoney \<Rightarrow> bool" where
  "equals this other \<longleftrightarrow>
     code (currency this) = code (currency other) \<and> Decimal_equals (amount this) (amount other)"

definition negate :: "MajikMoney \<Rightarrow> MajikMoney" where
  "negate this = new_MajikMoney (Decimal_neg (amount this)) (Some (currency this))"

definition abs_money :: "MajikMoney \<Rightarrow> MajikMoney" where
  "abs_money this = new_MajikMoney (Decimal_abs (amount this)) (Some (currency this))"

definition greaterThan_money :: "MajikMoney \<Rightarrow> MajikMoney \<Rightarrow> error + bool" where
  "greaterThan_money this other =
     (case assertSameCurrency this other of
        Inl e \<Rightarrow> Inl e
      | Inr _ \<Rightarrow> Inr (Decimal_gt (amount this) (amount other)))"

definition lessThan_money :: "MajikMoney \<Rightarrow> MajikMoney \<Rightarrow> error + bool" where
  "lessThan_money this other =
     (case assertSameCurrency this other of
        Inl e \<Rightarrow> Inl e
      | Inr _ \<Rightarrow> Inr (Decimal_lt (amount this) (amount other)))"

definition greaterThanOrEqual :: "MajikMoney \<Rightarrow> MajikMoney \<Rightarrow> error + bool" where
  "greaterThanOrEqual this other =
     (case assertSameCurrency this other of
        Inl e \<Rightarrow> Inl e
      | Inr _ \<Rightarrow> Inr (Decimal_gte (amount this) (amount other)))"

definition lessThanOrEqual :: "MajikMoney \<Rightarrow> MajikMoney \<Rightarrow> error + bool" where
  "lessThanOrEqual this other =
     (case assertSameCurrency this other of
        Inl e \<Rightarrow> Inl e
      | Inr _ \<Rightarrow> Inr (Decimal_lte (amount this) (amount other)))"

subsection \<open>Allocation\<close>

text \<open>
  \<open>allocate\<close> maps over the ratios with the running \<open>remainder\<close> as the loop state;
  \<open>i === ratios.length - 1\<close> holds exactly at the last ratio. A number passed to a
  \<open>Decimal\<close> method is converted by \<open>new Decimal\<close>; \<open>totalRatio\<close> is the source's \<open>total\<close>.
\<close>

fun allocate_map :: "MajikMoney \<Rightarrow> number \<Rightarrow> Decimal \<Rightarrow> number list \<Rightarrow> MajikMoney list" where
  "allocate_map this totalRatio remainder [] = []"
| "allocate_map this totalRatio remainder (ratio_i # rest) =
     (let share = toDecimalPlaces 0 ROUND_DOWN
                    (Decimal_div (Decimal_mul (amount this) (Decimal_of_number ratio_i))
                                 (Decimal_of_number totalRatio));
          remainder' = Decimal_sub remainder share
      in new_MajikMoney (if rest = [] then Decimal_add share remainder' else share)
                        (Some (currency this))
         # allocate_map this totalRatio remainder' rest)"

definition allocate :: "MajikMoney \<Rightarrow> number list \<Rightarrow> MajikMoney list" where
  "allocate this ratios =
     (let totalRatio = foldl number_add (Num 0) ratios
      in allocate_map this totalRatio (amount this) ratios)"

text \<open>\<open>Array(parts)\<close> raises a \<open>RangeError\<close> unless \<open>parts\<close> is an integer below \<open>2 ^ 32\<close>.\<close>

definition evenSplit :: "MajikMoney \<Rightarrow> number \<Rightarrow> error + MajikMoney list" where
  "evenSplit this parts =
     (if number_le_zero parts then Inl InvalidParts
      else case parts of
             Num n \<Rightarrow>
               if of_int \<lfloor>n\<rfloor> = n \<and> n < 2 ^ 32
               then Inr (allocate this (replicate (nat \<lfloor>n\<rfloor>) (Num 1)))
               else Inl RangeError
           | _ \<Rightarrow> Inl RangeError)"

subsection \<open>Currency conversion\<close>

definition convert :: "MajikMoney \<Rightarrow> Decimal \<Rightarrow> CurrencyDefinition \<Rightarrow> Rounding \<Rightarrow> error + MajikMoney" where
  "convert this rate targetCurrency rounding =
     (let majorSource = toMajor this;
          majorTarget = Decimal_mul (Decimal_of_number majorSource) rate
      in fromMajor majorTarget (code targetCurrency) rounding)"

definition convertFromQuoted :: "MajikMoney \<Rightarrow> Decimal \<Rightarrow> CurrencyDefinition \<Rightarrow> Rounding \<Rightarrow> error + MajikMoney" where
  "convertFromQuoted this quotedRate targetCurrency rounding =
     (let rate = Decimal_div (Fin 1) quotedRate
      in convert this rate targetCurrency rounding)"

subsection \<open>Statistics\<close>

fun sum_reduce :: "string \<Rightarrow> MajikMoney \<Rightarrow> MajikMoney list \<Rightarrow> error + MajikMoney" where
  "sum_reduce c acc [] = Inr acc"
| "sum_reduce c acc (m # ms) =
     (if code (currency m) \<noteq> c then Inl CurrencyMismatch
      else case add acc m of Inl e \<Rightarrow> Inl e | Inr acc' \<Rightarrow> sum_reduce c acc' ms)"

definition sum_money :: "MajikMoney list \<Rightarrow> error + MajikMoney" where
  "sum_money values =
     (case values of
        [] \<Rightarrow> Inl NoValues
      | v0 # _ \<Rightarrow> sum_reduce (code (currency v0)) (fromMinor (Fin 0) (code (currency v0))) values)"

definition average :: "MajikMoney list \<Rightarrow> error + MajikMoney" where
  "average values =
     (case sum_money values of
        Inl e \<Rightarrow> Inl e
      | Inr s \<Rightarrow> Inr (divide_money s (Fin (of_nat (length values))) ROUND_HALF_EVEN))"

text \<open>
  \<open>median\<close> copies the caller's array (\<open>[...values]\<close>) and sorts the copy in place with
  \<open>Array.prototype.sort\<close>. Arrays therefore live in a store: a reference is a natural
  number, \<open>spread\<close> allocates a fresh array, \<open>array_sort\<close> overwrites the array it is
  given. The sort of the language is stable; on a comparator that is a consistent
  ordering it returns what the stable insertion sort \<open>sort_with\<close> returns (a \<open>NaN\<close>
  result of the comparator counts as \<open>0\<close>). With a \<open>NaN\<close> amount in the array the
  comparator is not a consistent ordering, and the permutation the engine returns is
  its own; \<open>sort_with\<close> models the sort on finite amounts.
\<close>

fun cmp_positive :: "number \<Rightarrow> bool" where
  "cmp_positive (Num a) = (0 < a)"
| "cmp_positive NumPInf = True"
| "cmp_positive _ = False"

fun insert_with :: "('a \<Rightarrow> 'a \<Rightarrow> number) \<Rightarrow> 'a \<Rightarrow> 'a list \<Rightarrow> 'a list" where
  "insert_with cmp x [] = [x]"
| "insert_with cmp x (y # ys) =
     (if cmp_positive (cmp x y) then y # insert_with cmp x ys else x # y # ys)"

definition sort_with :: "('a \<Rightarrow> 'a \<Rightarrow> number) \<Rightarrow> 'a list \<Rightarrow> 'a list" where
  "sort_with cmp xs = foldr (insert_with cmp) xs []"

type_synonym ref = nat

record heap =
  arrays :: "ref \<Rightarrow> MajikMoney list"
  next_ref :: ref

definition spread :: "heap \<Rightarrow> ref \<Rightarrow> ref \<times> heap" where
  "spread h r =
     (next_ref h,
      h\<lparr>arrays := (arrays h)(next_ref h := arrays h r), next_ref := Suc (next_ref h)\<rparr>)"

definition array_sort :: "(MajikMoney \<Rightarrow> MajikMoney \<Rightarrow> number) \<Rightarrow> heap \<Rightarrow> ref \<Rightarrow> heap" where
  "array_sort cmp h r = h\<lparr>arrays := (arrays h)(r := sort_with cmp (arrays h r))\<rparr>"

definition median :: "heap \<Rightarrow> ref \<Rightarrow> (error + MajikMoney) \<times> heap" where
  "median h values =
     (case arrays h values of
        [] \<Rightarrow> (Inl NoValues, h)
      | v0 # _ \<Rightarrow>
          if \<not> list_all (\<lambda>v. code (currency v) = code (currency v0)) (arrays h values)
          then (Inl CurrencyMismatch, h)
          else
            let (sorted_ref, h1) = spread h values;
                h2 = array_sort (\<lambda>a b. number_sub (toMinor a) (toMinor b)) h1 sorted_ref;
                s = arrays h2 sorted_ref;
                mid = length s div 2
            in if length s mod 2 = 0
               then (case add (s ! (mid - 1)) (s ! mid) of
                       Inl e \<Rightarrow> (Inl e, h2)
                     | Inr t \<Rightarrow> (Inr (divide_money t (Fin 2) ROUND_HALF_EVEN), h2))
               else (Inr (s ! mid), h2))"

text \<open>\<open>min\<close> and \<open>max\<close> reduce with the exact comparisons \<open>lessThan\<close> and \<open>greaterThan\<close>.\<close>

fun min_reduce :: "MajikMoney \<Rightarrow> MajikMoney list \<Rightarrow> error + MajikMoney" where
  "min_reduce prev [] = Inr prev"
| "min_reduce prev (cur # rest) =
     (case lessThan_money prev cur of
        Inl e \<Rightarrow> Inl e
      | Inr b \<Rightarrow> min_reduce (if b then prev else cur) rest)"

definition min_money :: "MajikMoney list \<Rightarrow> error + MajikMoney" where
  "min_money values = (case values of [] \<Rightarrow> Inl NoValues | v0 # rest \<Rightarrow> min_reduce v0 rest)"

fun max_reduce :: "MajikMoney \<Rightarrow> MajikMoney list \<Rightarrow> error + MajikMoney" where
  "max_reduce prev [] = Inr prev"
| "max_reduce prev (cur # rest) =
     (case greaterThan_money prev cur of
        Inl e \<Rightarrow> Inl e
      | Inr b \<Rightarrow> max_reduce (if b then prev else cur) rest)"

definition max_money :: "MajikMoney list \<Rightarrow> error + MajikMoney" where
  "max_money values = (case values of [] \<Rightarrow> Inl NoValues | v0 # rest \<Rightarrow> max_reduce v0 rest)"

section \<open>Serialization\<close>

subsection \<open>Decimal strings\<close>

text \<open>
  \<open>Decimal.toString()\<close> writes the significant digits of a finite value without
  trailing zeros, in positional notation when the decimal exponent \<open>e\<close> of the value
  lies strictly between \<open>toExpNeg = -20\<close> and \<open>toExpPos = 50\<close>, and in exponential
  notation otherwise.
\<close>

definition digit_char :: "int \<Rightarrow> char" where
  "digit_char d = char_of (48 + d)"

definition is_digit :: "char \<Rightarrow> bool" where
  "is_digit c \<longleftrightarrow> 48 \<le> (of_char c :: int) \<and> (of_char c :: int) \<le> 57"

definition digit_val :: "char \<Rightarrow> int" where
  "digit_val c = of_char c - 48"

function int_digits :: "int \<Rightarrow> string" where
  "int_digits n = (if n < 10 then [digit_char n] else int_digits (n div 10) @ [digit_char (n mod 10)])"
  by pat_completeness auto
termination
  by (relation "measure nat") (auto simp: int_div_less_self)

declare int_digits.simps [simp del]

definition digits_val :: "string \<Rightarrow> int" where
  "digits_val s = foldl (\<lambda>acc c. 10 * acc + digit_val c) 0 s"

definition strip_trailing_zeros :: "string \<Rightarrow> string" where
  "strip_trailing_zeros s = rev (dropWhile (\<lambda>c. c = CHR ''0'') (rev s))"

text \<open>
  The number of decimal places of a decimal fraction: the least \<open>j\<close> with \<open>x * 10 ^ j\<close>
  an integer. It is at most the denominator of \<open>x\<close>, which bounds the search.
\<close>

function decimal_places_from :: "rat \<Rightarrow> nat \<Rightarrow> nat" where
  "decimal_places_from x j =
     (if of_int \<lfloor>x * 10 ^ j\<rfloor> = x * 10 ^ j \<or> snd (quotient_of x) \<le> int j then j
      else decimal_places_from x (Suc j))"
  by pat_completeness auto
termination
  by (relation "measure (\<lambda>(x, j). nat (snd (quotient_of x)) - j)") auto

declare decimal_places_from.simps [simp del]

definition finite_toString :: "rat \<Rightarrow> string" where
  "finite_toString q =
     (if q = 0 then ''0''
      else
        let x = \<bar>q\<bar>;
            j = decimal_places_from x 0;
            ds = int_digits \<lfloor>x * 10 ^ j\<rfloor>;
            e = int (length ds) - 1 - int j;
            sig = strip_trailing_zeros ds;
            body =
              (if e \<le> - 20 \<or> 50 \<le> e
               then hd sig # (if tl sig = [] then [] else CHR ''.'' # tl sig)
                    @ CHR ''e'' # (if e < 0 then CHR ''-'' else CHR ''+'') # int_digits \<bar>e\<bar>
               else if e < 0
               then ''0.'' @ replicate (nat (- e - 1)) CHR ''0'' @ sig
               else if int (length sig) \<le> e + 1
               then sig @ replicate (nat (e + 1) - length sig) CHR ''0''
               else take (nat (e + 1)) sig @ CHR ''.'' # drop (nat (e + 1)) sig)
        in (if q < 0 then CHR ''-'' # body else body))"

text \<open>What \<open>finite_toString\<close> writes for a positive integer \<open>n\<close>.\<close>

definition positive_toString :: "int \<Rightarrow> string" where
  "positive_toString n =
     (let ds = int_digits n; sig = strip_trailing_zeros ds; e = int (length ds) - 1
      in if 50 \<le> e
         then hd sig # (if tl sig = [] then [] else CHR ''.'' # tl sig)
              @ CHR ''e'' # CHR ''+'' # int_digits e
         else ds)"

fun Decimal_toString :: "Decimal \<Rightarrow> string" where
  "Decimal_toString (Fin q) = finite_toString q"
| "Decimal_toString NaN = ''NaN''"
| "Decimal_toString PInf = ''Infinity''"
| "Decimal_toString NInf = ''-Infinity''"

text \<open>
  \<open>new Decimal(s)\<close> for a string: an optional sign, then \<open>Infinity\<close>, \<open>NaN\<close> or a
  decimal literal (digits with an optional fraction part, or a fraction part alone,
  and an optional exponent \<open>e\<close> with its own optional sign); any other string raises
  (here \<open>None\<close>). The literals with a radix prefix and the digits grouped by
  underscores, which decimal.js also reads, are outside this grammar; \<open>toString\<close>
  writes neither. The constructor keeps every digit: \<open>precision\<close> does not
  apply to it.
\<close>

definition parse_exponent :: "string \<Rightarrow> int option" where
  "parse_exponent s =
     (case s of
        [] \<Rightarrow> Some 0
      | c # r \<Rightarrow>
          if c = CHR ''e'' \<or> c = CHR ''E'' then
            (let (neg, ds) = (case r of
                                d # r' \<Rightarrow> if d = CHR ''-'' then (True, r')
                                           else if d = CHR ''+'' then (False, r') else (False, r)
                              | [] \<Rightarrow> (False, r))
             in if ds \<noteq> [] \<and> list_all is_digit ds
                then Some (if neg then - digits_val ds else digits_val ds) else None)
          else None)"

definition parse_unsigned :: "string \<Rightarrow> rat option" where
  "parse_unsigned s =
     (let ip = takeWhile is_digit s;
          r = dropWhile is_digit s;
          (fp, r') = (case r of
                        c # t \<Rightarrow> if c = CHR ''.'' then (takeWhile is_digit t, dropWhile is_digit t)
                                  else ([], r)
                      | [] \<Rightarrow> ([], r));
          dot = (r \<noteq> [] \<and> hd r = CHR ''.'')
      in if ip = [] \<and> (\<not> dot \<or> fp = []) then None
         else case parse_exponent r' of
                None \<Rightarrow> None
              | Some ex \<Rightarrow> Some (of_int (digits_val (ip @ fp)) * power_int 10 (ex - int (length fp))))"

definition Decimal_parse :: "string \<Rightarrow> Decimal option" where
  "Decimal_parse s =
     (let (neg, body) = (case s of
                           c # r \<Rightarrow> if c = CHR ''-'' then (True, r)
                                     else if c = CHR ''+'' then (False, r) else (False, s)
                         | [] \<Rightarrow> (False, s))
      in if body = ''Infinity'' then Some (if neg then NInf else PInf)
         else if body = ''NaN'' then Some NaN
         else map_option (\<lambda>v. Fin (if neg then - v else v)) (parse_unsigned body))"

subsection \<open>The wire shape\<close>

text \<open>
  \<open>MajikMoneyJSON\<close>: \<open>amount\<close> is a string or a number; \<open>currency\<close> is declared a
  string, but \<open>parseFromJSON\<close> tests its run-time type, so a value of any other type
  is \<open>NotAString\<close>; \<open>__type\<close> is optional.
\<close>

datatype json_amount = AmountString string | AmountNumber number

datatype json_currency = CurrencyString string | NotAString

record MajikMoneyJSON =
  json_type :: "string option"
  json_amount :: json_amount
  json_currency :: json_currency

definition toJSON :: "MajikMoney \<Rightarrow> MajikMoneyJSON" where
  "toJSON this =
     \<lparr>json_type = Some ''MajikMoney'',
      json_amount = AmountString (Decimal_toString (amount this)),
      json_currency = CurrencyString (code (currency this))\<rparr>"

definition parseFromJSON :: "MajikMoneyJSON \<Rightarrow> error + MajikMoney" where
  "parseFromJSON data =
     (case json_currency data of
        NotAString \<Rightarrow> Inl InvalidCurrencyType
      | CurrencyString c \<Rightarrow>
          (case CURRENCIES c of
             None \<Rightarrow> Inl UnsupportedCurrency
           | Some cur \<Rightarrow>
               (case json_amount data of
                  AmountNumber n \<Rightarrow> Inr (new_MajikMoney (Decimal_of_number n) (Some cur))
                | AmountString s \<Rightarrow>
                    (case Decimal_parse s of
                       None \<Rightarrow> Inl DecimalError
                     | Some d \<Rightarrow> Inr (new_MajikMoney d (Some cur))))))"

section \<open>The instances the library can produce\<close>

text \<open>
  \<open>produced m\<close>: the instance \<open>m\<close> comes out of the constructor, of a factory, or of
  an operation applied to produced instances. \<open>applyPercentage\<close> and \<open>compound\<close> are
  \<open>multiply\<close> with a factor of their own, \<open>addPercentage\<close> and \<open>subtractPercentage\<close>
  are \<open>add\<close> and \<open>subtract\<close> of a \<open>multiply\<close>, \<open>weightedAverage\<close> is a chain of
  \<open>multiply\<close>, \<open>add\<close> and \<open>divide\<close>, and \<open>variance\<close> and \<open>standardDeviation\<close> end in
  \<open>fromMajor\<close>; the rules below cover them with an arbitrary \<open>Decimal\<close> argument.
\<close>

inductive produced :: "MajikMoney \<Rightarrow> bool" where
  by_constructor: "produced (new_MajikMoney d c)"
| by_fromMinor: "produced (fromMinor d cc)"
| by_fromMajor: "fromMajor d cc rm = Inr m \<Longrightarrow> produced m"
| by_parseFromJSON: "parseFromJSON j = Inr m \<Longrightarrow> produced m"
| by_add: "produced a \<Longrightarrow> produced b \<Longrightarrow> add a b = Inr m \<Longrightarrow> produced m"
| by_subtract: "produced a \<Longrightarrow> produced b \<Longrightarrow> subtract a b = Inr m \<Longrightarrow> produced m"
| by_multiply: "produced a \<Longrightarrow> produced (multiply a f rm)"
| by_divide: "produced a \<Longrightarrow> produced (divide_money a f rm)"
| by_invertDivide: "produced a \<Longrightarrow> invertDivide a d rm = Inr m \<Longrightarrow> produced m"
| by_negate: "produced a \<Longrightarrow> produced (negate a)"
| by_abs: "produced a \<Longrightarrow> produced (abs_money a)"
| by_allocate: "produced a \<Longrightarrow> m \<in> set (allocate a ratios) \<Longrightarrow> produced m"
| by_evenSplit: "produced a \<Longrightarrow> evenSplit a parts = Inr ms \<Longrightarrow> m \<in> set ms \<Longrightarrow> produced m"
| by_convert: "produced a \<Longrightarrow> convert a rate t rm = Inr m \<Longrightarrow> produced m"
| by_convertFromQuoted: "produced a \<Longrightarrow> convertFromQuoted a rate t rm = Inr m \<Longrightarrow> produced m"
| by_sum: "(\<And>v. v \<in> set vs \<Longrightarrow> produced v) \<Longrightarrow> sum_money vs = Inr m \<Longrightarrow> produced m"
| by_average: "(\<And>v. v \<in> set vs \<Longrightarrow> produced v) \<Longrightarrow> average vs = Inr m \<Longrightarrow> produced m"
| by_median: "(\<And>v. v \<in> set (arrays h r) \<Longrightarrow> produced v) \<Longrightarrow> fst (median h r) = Inr m
              \<Longrightarrow> produced m"
| by_min: "(\<And>v. v \<in> set vs \<Longrightarrow> produced v) \<Longrightarrow> min_money vs = Inr m \<Longrightarrow> produced m"
| by_max: "(\<And>v. v \<in> set vs \<Longrightarrow> produced v) \<Longrightarrow> max_money vs = Inr m \<Longrightarrow> produced m"

section \<open>Allocation on the integers\<close>




definition money_of :: "CurrencyDefinition \<Rightarrow> int \<Rightarrow> MajikMoney" where
  "money_of c x = \<lparr>amount = Fin (of_int x), currency = c\<rparr>"

section \<open>The amount on the wire, as specified\<close>

text \<open>
  The specification has the amount on the wire as the decimal string of the integer
  number of minor units: the digits of its magnitude, the most significant first and
  with no leading zero, after a minus sign when the integer is negative. It is what
  the amount string of \<open>toJSON\<close> is compared with.
\<close>

definition decimal_string :: "int \<Rightarrow> string" where
  "decimal_string a = (if a < 0 then CHR ''-'' # int_digits (- a) else int_digits a)"

section \<open>Facts about rounding\<close>

lemma round_half_even_of_int [simp]: "round_half_even (of_int n) = n"
  by (simp add: round_half_even_def)

lemma round_int_of_int [simp]: "round_int rm (of_int n) = n"
  by (cases rm) (simp_all add: trunc_def, linarith+)

lemma round_half_even_frac:
  assumes "0 \<le> d" "d < 1"
  shows "round_half_even (of_int f + d) =
           (if d < 1 / 2 then f else if 1 / 2 < d then f + 1 else if even f then f else f + 1)"
proof -
  have "\<lfloor>of_int f + d\<rfloor> = f"
    using assms by (intro floor_unique) auto
  then show ?thesis
    by (simp add: round_half_even_def)
qed

lemma frac_decomp:
  obtains f :: int and d :: rat where "q = of_int f + d" "0 \<le> d" "d < 1"
proof
  show "q = of_int \<lfloor>q\<rfloor> + (q - of_int \<lfloor>q\<rfloor>)" by simp
  show "0 \<le> q - of_int \<lfloor>q\<rfloor>" "q - of_int \<lfloor>q\<rfloor> < 1" by linarith+
qed

lemma round_half_even_nearest: "\<bar>of_int (round_half_even q) - q\<bar> \<le> 1 / 2"
proof -
  obtain f d where q: "q = of_int f + d" "0 \<le> d" "d < 1"
    by (rule frac_decomp)
  show ?thesis
    unfolding q(1) round_half_even_frac [OF q(2,3)] using q(2,3) by auto
qed

lemma round_half_even_tie:
  assumes "\<bar>of_int (round_half_even q) - q\<bar> = 1 / 2"
  shows "even (round_half_even q)"
proof -
  obtain f d where q: "q = of_int f + d" "0 \<le> d" "d < 1"
    by (rule frac_decomp)
  show ?thesis
    using assms q(2,3) unfolding q(1) round_half_even_frac [OF q(2,3)]
    by (auto split: if_splits)
qed

subsection \<open>Digit counts and exponents\<close>

lemma ndigits_pos: "0 < n \<Longrightarrow> 1 < b \<Longrightarrow> 0 < ndigits b n"
  by (subst ndigits.simps) simp

lemma ndigits_bounds:
  assumes "0 < n" "1 < b"
  shows "b ^ (ndigits b n - 1) \<le> n \<and> n < b ^ ndigits b n"
  using assms
proof (induction b n rule: ndigits.induct)
  case (1 b n)
  have nd: "ndigits b n = Suc (ndigits b (n div b))"
    using 1(2,3) by (subst ndigits.simps) simp
  have split: "n = b * (n div b) + n mod b" by simp
  have md: "0 \<le> n mod b" "n mod b < b" using 1(3) by simp_all
  show ?case
  proof (cases "0 < n div b")
    case True
    then have IH: "b ^ (ndigits b (n div b) - 1) \<le> n div b" "n div b < b ^ ndigits b (n div b)"
      using 1 by simp_all
    have pos: "0 < ndigits b (n div b)" using True 1(3) by (rule ndigits_pos)
    then obtain k where k: "ndigits b (n div b) = Suc k" by (cases "ndigits b (n div b)") auto
    have "b ^ Suc k = b * b ^ k" by simp
    also have "\<dots> \<le> b * (n div b)" using IH(1) k 1(3) by simp
    also have "\<dots> \<le> n" using split md by linarith
    finally have lo: "b ^ Suc k \<le> n" .
    have "n < b * (n div b) + b" using split md by linarith
    also have "\<dots> = b * (n div b + 1)" by (simp add: algebra_simps)
    also have "\<dots> \<le> b * b ^ Suc k" using IH(2) k 1(3) by (intro mult_left_mono) auto
    finally have hi: "n < b ^ Suc (Suc k)" by simp
    show ?thesis using lo hi by (simp add: nd k)
  next
    case False
    have "0 \<le> n div b" using 1(2,3) by (simp add: pos_imp_zdiv_nonneg_iff)
    with False have z: "n div b = 0" by simp
    then have "n < b" using split md by simp
    moreover have "ndigits b 0 = 0" by (subst ndigits.simps) simp
    ultimately show ?thesis using 1(2) by (simp add: nd z)
  qed
qed

lemma ilog_nonneg: "1 \<le> q \<Longrightarrow> 1 < b \<Longrightarrow> 0 \<le> ilog b q"
  using ndigits_pos [of "\<lfloor>q\<rfloor>" b] by (simp add: ilog_def)

lemma ilog_lower:
  assumes "0 < q" "1 < b"
  shows "power_int (of_int b) (ilog b q) \<le> q"
proof (cases "1 \<le> q")
  case True
  then have fl: "0 < \<lfloor>q\<rfloor>" by simp
  from ndigits_pos [OF fl assms(2)] obtain k where k: "ndigits b \<lfloor>q\<rfloor> = Suc k"
    by (cases "ndigits b \<lfloor>q\<rfloor>") auto
  have "b ^ k \<le> \<lfloor>q\<rfloor>" using ndigits_bounds [OF fl assms(2)] k by simp
  then have "(of_int (b ^ k) :: rat) \<le> of_int \<lfloor>q\<rfloor>" by (simp only: of_int_le_iff)
  also have "\<dots> \<le> q" by simp
  finally show ?thesis using True k by (simp add: ilog_def)
next
  case False
  then have q1: "q < 1" by simp
  define m where "m = \<lceil>1 / q\<rceil> - 1"
  have "1 < 1 / q" using assms(1) q1 by (simp add: field_simps)
  then have "1 < \<lceil>1 / q\<rceil>" by (simp add: less_ceiling_iff)
  then have mpos: "0 < m" by (simp add: m_def)
  have "m < b ^ ndigits b m" using ndigits_bounds [OF mpos assms(2)] by simp
  then have "\<lceil>1 / q\<rceil> \<le> b ^ ndigits b m" by (simp add: m_def)
  then have "1 / q \<le> of_int (b ^ ndigits b m)" by (simp only: ceiling_le_iff)
  then have "1 / q \<le> of_int b ^ ndigits b m" by simp
  moreover have bp: "(0::rat) < of_int b ^ ndigits b m" using assms(2) by simp
  ultimately have "1 / of_int b ^ ndigits b m \<le> q"
    using assms(1) by (simp add: field_simps)
  then show ?thesis
    using False by (simp add: ilog_def m_def power_int_minus_divide)
qed

lemma ilog_less:
  assumes "0 < q" "q < power_int 10 j"
  shows "ilog 10 q < j"
proof -
  have "power_int (10::rat) (ilog 10 q) \<le> q"
    using ilog_lower [OF assms(1), of 10] by simp
  then have lt: "power_int (10::rat) (ilog 10 q) < power_int 10 j" using assms(2) by simp
  show ?thesis
  proof (rule ccontr)
    assume "\<not> ilog 10 q < j"
    then have "power_int (10::rat) j \<le> power_int 10 (ilog 10 q)"
      by (intro power_int_increasing) auto
    with lt show False by simp
  qed
qed

subsection \<open>Rounding to significant digits is exact on short values\<close>

lemma floor_le_round_half_even: "\<lfloor>q\<rfloor> \<le> round_half_even q"
  by (simp add: round_half_even_def Let_def)

lemma round_half_even_le_ceiling: "round_half_even q \<le> \<lceil>q\<rceil>"
proof -
  obtain f d where q: "q = of_int f + d" "0 \<le> d" "d < 1"
    by (rule frac_decomp)
  have "0 < d \<Longrightarrow> \<lceil>of_int f + d\<rceil> = f + 1"
    using q(3) by (intro ceiling_unique) auto
  then show ?thesis
    unfolding q(1) round_half_even_frac [OF q(2,3)] using q(2) by (auto simp: le_ceiling_iff)
qed

lemma round_half_even_ge: "of_int k \<le> q \<Longrightarrow> k \<le> round_half_even q"
  using floor_le_round_half_even [of q] by (simp add: le_floor_iff [symmetric])

lemma round_half_even_le: "q \<le> of_int k \<Longrightarrow> round_half_even q \<le> k"
  using round_half_even_le_ceiling [of q] by (simp add: ceiling_le_iff [symmetric])

text \<open>
  \<open>round_sd\<close> never crosses a value of the decimal grid that is at least as coarse as
  the grid of the value it rounds.
\<close>

lemma round_sd_sandwich:
  assumes bound: "\<bar>q\<bar> < power_int 10 (j + 40)"
    and x: "x = of_int N * power_int 10 j"
  shows "x \<le> q \<Longrightarrow> x \<le> round_sd q"
    and "q \<le> x \<Longrightarrow> round_sd q \<le> x"
proof -
  define g where "g = ilog 10 \<bar>q\<bar> - (precision - 1)"
  define s :: rat where "s = power_int 10 g"
  have spos: "0 < s" by (simp add: s_def)
  have on_grid: "x / s = of_int (N * 10 ^ nat (j - g))" if "q \<noteq> 0"
  proof -
    have "ilog 10 \<bar>q\<bar> < j + 40"
      using that bound by (intro ilog_less) auto
    then have gj: "g \<le> j" by (simp add: g_def precision_def)
    have "x / s = of_int N * (power_int 10 j / power_int 10 g)"
      by (simp add: x s_def)
    also have "power_int (10::rat) j / power_int 10 g = power_int 10 (j - g)"
      by (simp add: power_int_diff)
    also have "\<dots> = 10 ^ nat (j - g)"
      using gj by (simp add: power_int_def)
    finally show ?thesis by simp
  qed
  have rs: "round_sd q = of_int (round_half_even (q / s)) * s" if "q \<noteq> 0"
    using that by (simp add: round_sd_def s_def g_def Let_def)
  show "x \<le> round_sd q" if le: "x \<le> q"
  proof (cases "q = 0")
    case True
    then show ?thesis using le by (simp add: round_sd_def)
  next
    case False
    have "x / s \<le> q / s" using le spos by (simp add: divide_right_mono)
    then have "N * 10 ^ nat (j - g) \<le> round_half_even (q / s)"
      unfolding on_grid [OF False] by (rule round_half_even_ge)
    then have "(of_int (N * 10 ^ nat (j - g)) :: rat) \<le> of_int (round_half_even (q / s))"
      by (simp only: of_int_le_iff)
    then have "x / s * s \<le> of_int (round_half_even (q / s)) * s"
      unfolding on_grid [OF False] using spos by (intro mult_right_mono) auto
    then show ?thesis using spos by (simp add: rs [OF False])
  qed
  show "round_sd q \<le> x" if le: "q \<le> x"
  proof (cases "q = 0")
    case True
    then show ?thesis using le by (simp add: round_sd_def)
  next
    case False
    have "q / s \<le> x / s" using le spos by (simp add: divide_right_mono)
    then have "round_half_even (q / s) \<le> N * 10 ^ nat (j - g)"
      unfolding on_grid [OF False] by (rule round_half_even_le)
    then have "(of_int (round_half_even (q / s)) :: rat) \<le> of_int (N * 10 ^ nat (j - g))"
      by (simp only: of_int_le_iff)
    then have "of_int (round_half_even (q / s)) * s \<le> x / s * s"
      unfolding on_grid [OF False] using spos by (intro mult_right_mono) auto
    then show ?thesis using spos by (simp add: rs [OF False])
  qed
qed

lemma round_sd_exact:
  assumes "\<bar>of_int N * power_int 10 j\<bar> < power_int (10::rat) (j + 40)"
  shows "round_sd (of_int N * power_int 10 j) = of_int N * power_int 10 j"
  using round_sd_sandwich [OF assms refl] by (intro antisym) auto

lemma round_sd_of_int:
  assumes "\<bar>n\<bar> < 10 ^ 40"
  shows "round_sd (of_int n) = of_int n"
proof -
  have "\<bar>of_int n :: rat\<bar> < of_int (10 ^ 40)"
    using assms by (simp only: of_int_abs [symmetric] of_int_less_iff)
  then show ?thesis
    using round_sd_exact [of n 0] by simp
qed



subsection \<open>Integers up to \<open>2 ^ 53\<close> are numbers\<close>

lemma double_round_of_int:
  assumes "\<bar>n\<bar> \<le> 2 ^ 53"
  shows "double_round (of_int n) = Num (of_int n)"
proof (cases "n = 0")
  case True
  then show ?thesis by (simp add: double_round_def)
next
  case False
  define q :: rat where "q = of_int n"
  have q0: "q \<noteq> 0" using False by (simp add: q_def)
  have q1: "1 \<le> \<bar>q\<bar>" using False by (simp add: q_def flip: of_int_abs)
  have qle: "\<bar>q\<bar> \<le> 2 ^ 53"
  proof -
    have "(of_int \<bar>n\<bar> :: rat) \<le> of_int (2 ^ 53)" using assms by (simp only: of_int_le_iff)
    then show ?thesis by (simp add: q_def)
  qed
  define e where "e = ilog 2 \<bar>q\<bar>"
  have e0: "0 \<le> e" using ilog_nonneg [OF q1, of 2] by (simp add: e_def)
  have lo: "power_int (2::rat) e \<le> \<bar>q\<bar>"
    using ilog_lower [of "\<bar>q\<bar>" 2] q0 by (simp add: e_def)
  have e53: "e \<le> 53"
  proof (rule ccontr)
    assume "\<not> e \<le> 53"
    then have "power_int (2::rat) 54 \<le> power_int 2 e" by (intro power_int_increasing) auto
    with lo qle show False by simp
  qed
  define ulp :: rat where "ulp = power_int 2 (e - 52)"
  have upos: "0 < ulp" by (simp add: ulp_def)
  have "\<exists>k. q / ulp = of_int k"
  proof (cases "e \<le> 52")
    case True
    have "q / ulp = q * power_int 2 (52 - e)"
      by (simp add: ulp_def power_int_diff)
    also have "\<dots> = of_int (n * 2 ^ nat (52 - e))"
      using True by (simp add: q_def power_int_def)
    finally show ?thesis by blast
  next
    case False
    with e53 have e: "e = 53" by simp
    have "\<bar>q\<bar> = 2 ^ 53" using lo qle by (simp add: e)
    then have "q = 2 ^ 53 \<or> q = - (2 ^ 53)" by (auto simp: abs_if split: if_splits)
    then show ?thesis
    proof
      assume "q = 2 ^ 53"
      then have "q / ulp = of_int (2 ^ 52)" by (simp add: ulp_def e)
      then show ?thesis by blast
    next
      assume "q = - (2 ^ 53)"
      then have "q / ulp = of_int (- (2 ^ 52))" by (simp add: ulp_def e)
      then show ?thesis by blast
    qed
  qed
  then obtain k where k: "q / ulp = of_int k" by blast
  have r: "of_int (round_half_even (q / ulp)) * ulp = q"
    using upos by (simp add: k) (simp flip: k)
  have small: "\<not> 2 ^ 1024 \<le> \<bar>q\<bar>"
  proof -
    have "(2::rat) ^ 53 < 2 ^ 1024" by (intro power_strict_increasing) auto
    with qle show ?thesis by linarith
  qed
  have "max e (- 1022) = e" using e0 by simp
  then show ?thesis
    unfolding q_def [symmetric]
    using q0 r small by (simp add: double_round_def Let_def e_def [symmetric] ulp_def [symmetric])
qed

lemma shortest_decimal_of_int:
  assumes "\<bar>n\<bar> \<le> 2 ^ 53"
  shows "shortest_decimal (of_int n) = of_int n"
proof -
  have "(of_int \<bar>n\<bar> :: rat) \<le> of_int (2 ^ 53)" using assms by (simp only: of_int_le_iff)
  then show ?thesis by (simp add: shortest_decimal_def)
qed

section \<open>Claim C4: what \<open>fromMinor\<close> does with a non-integer\<close>

text \<open>
  Claim C4, as stated: \<open>fromMinor\<close> truncates a non-integer value toward zero. It does
  not: the constructor rounds with \<open>toDecimalPlaces(0)\<close> in the configured mode, so
  \<open>1.5\<close> is stored as \<open>2\<close> and \<open>-1.5\<close> as \<open>-2\<close>, where truncation gives \<open>1\<close>.
\<close>

theorem C4_counterexample:
  "amount (fromMinor (Fin (3 / 2)) ''USD'') = Fin 2
   \<and> amount (fromMinor (Fin (- 3 / 2)) ''USD'') = Fin (- 2)
   \<and> amount (fromMinor (Fin (3 / 2)) ''USD'') \<noteq> Fin (of_int (trunc (3 / 2)))"
  by code_simp

text \<open>
  Claim C4, amended: \<open>fromMinor\<close> stores a finite value \<open>v\<close> rounded to the nearest
  integer, a tie going to the even neighbour; an integer value is stored unchanged.
\<close>

theorem C4_fromMinor_rounds_half_even:
  "amount (fromMinor (Fin v) c) = Fin (of_int (round_half_even v))
   \<and> \<bar>of_int (round_half_even v) - v\<bar> \<le> 1 / 2
   \<and> (\<bar>of_int (round_half_even v) - v\<bar> = 1 / 2 \<longrightarrow> even (round_half_even v))
   \<and> amount (fromMinor (Fin (of_int n)) c) = Fin (of_int n)"
  using round_half_even_nearest [of v] round_half_even_tie [of v]
  by (simp add: fromMinor_def new_MajikMoney_def)

text \<open>The tie \<open>2.5\<close> is stored as \<open>2\<close>.\<close>

theorem C4_witness:
  "\<bar>of_int (round_half_even (5 / 2)) - 5 / 2\<bar> = (1 / 2 :: rat)
   \<and> even (round_half_even (5 / 2))
   \<and> amount (fromMinor (Fin (5 / 2)) ''USD'') = Fin 2"
proof -
  have e: "round_half_even (5 / 2) = 2" by code_simp
  show ?thesis
    using C4_fromMinor_rounds_half_even [of "5 / 2" "''USD''" 0] by (simp add: e)
qed

section \<open>Numbers are ordered as the values they round\<close>

subsection \<open>Exponents and rounding are monotone\<close>






subsection \<open>Rounding to binary64\<close>

text \<open>
  As \<open>round_sd\<close> on the decimal grid, \<open>binary64_nearest\<close> never crosses a value of the
  binary grid that is at least as coarse as the grid of the value it rounds. It is
  therefore monotone and leaves its own results unchanged.
\<close>

lemma double_round_nearest:
  "double_round q =
     (if 2 ^ 1024 \<le> \<bar>binary64_nearest q\<bar> then (if 0 < q then NumPInf else NumNInf)
      else Num (binary64_nearest q))"
  by (simp add: double_round_def binary64_nearest_def Let_def)











subsection \<open>The decimal read from a number\<close>

text \<open>
  The decimal that \<open>new Decimal\<close> reads from a number converts back to that number,
  whichever branch of \<open>shortest_from\<close> produced it.
\<close>

lemma is_number_nearest: "is_number y \<Longrightarrow> binary64_nearest y = y"
  by (simp add: is_number_def double_round_nearest split: if_splits)






subsection \<open>The error of rounding to forty digits\<close>




section \<open>Decimal strings read back\<close>

lemma digit_char_props:
  assumes "0 \<le> d" "d < 10"
  shows "is_digit (digit_char d)" and "digit_val (digit_char d) = d"
    and "digit_char d = CHR ''0'' \<longleftrightarrow> d = 0"
proof -
  have m: "(48 + d) mod 256 = 48 + d" using assms by simp
  show "is_digit (digit_char d)" using assms by (simp add: is_digit_def digit_char_def m)
  show "digit_val (digit_char d) = d" by (simp add: digit_val_def digit_char_def m)
  have "digit_char d = CHR ''0'' \<longleftrightarrow> (of_char (digit_char d) :: int) = of_char CHR ''0''"
    by (simp only: of_char_eq_iff)
  also have "\<dots> \<longleftrightarrow> d = 0" by (simp add: digit_char_def m)
  finally show "digit_char d = CHR ''0'' \<longleftrightarrow> d = 0" .
qed

lemma is_digit_not_special:
  assumes "is_digit c"
  shows "c \<noteq> CHR ''.''" "c \<noteq> CHR ''e''" "c \<noteq> CHR ''E''" "c \<noteq> CHR ''-''" "c \<noteq> CHR ''+''"
    "c \<noteq> CHR ''I''" "c \<noteq> CHR ''N''"
  using assms by (auto simp: is_digit_def)

lemma int_digits_nonempty: "int_digits n \<noteq> []"
  by (subst int_digits.simps) simp

lemma int_digits_all_digits: "0 \<le> n \<Longrightarrow> list_all is_digit (int_digits n)"
proof (induction n rule: int_digits.induct)
  case (1 n)
  show ?case
  proof (cases "n < 10")
    case True
    with 1(2) show ?thesis by (subst int_digits.simps) (simp add: digit_char_props)
  next
    case False
    then have "list_all is_digit (int_digits (n div 10))" using 1 by simp
    moreover have "is_digit (digit_char (n mod 10))" by (intro digit_char_props) simp_all
    ultimately show ?thesis using False by (subst int_digits.simps) simp
  qed
qed

lemma digits_val_snoc: "digits_val (s @ [c]) = 10 * digits_val s + digit_val c"
  by (simp add: digits_val_def)

lemma digits_val_int_digits: "0 \<le> n \<Longrightarrow> digits_val (int_digits n) = n"
proof (induction n rule: int_digits.induct)
  case (1 n)
  show ?case
  proof (cases "n < 10")
    case True
    with 1(2) show ?thesis
      by (subst int_digits.simps) (simp add: digits_val_def digit_char_props)
  next
    case False
    then have "digits_val (int_digits (n div 10)) = n div 10" using 1 by simp
    moreover have "digit_val (digit_char (n mod 10)) = n mod 10" by (intro digit_char_props) simp_all
    ultimately show ?thesis using False
      by (subst int_digits.simps) (simp add: digits_val_snoc)
  qed
qed

lemma digits_val_zeros: "digits_val (s @ replicate k CHR ''0'') = digits_val s * 10 ^ k"
proof (induction k)
  case 0
  show ?case by simp
next
  case (Suc k)
  have "s @ replicate (Suc k) CHR ''0'' = (s @ replicate k CHR ''0'') @ [CHR ''0'']"
    by (simp add: replicate_append_same)
  then have "digits_val (s @ replicate (Suc k) CHR ''0'')
      = 10 * digits_val (s @ replicate k CHR ''0'') + digit_val CHR ''0''"
    by (simp only: digits_val_snoc)
  then show ?case by (simp add: Suc digit_val_def)
qed

lemma takeWhile_eq_replicate: "takeWhile (\<lambda>c. c = a) s = replicate (length (takeWhile (\<lambda>c. c = a) s)) a"
  by (induction s) auto

lemma strip_trailing_zeros_decomp:
  "s = strip_trailing_zeros s @ replicate (length s - length (strip_trailing_zeros s)) CHR ''0''"
proof -
  let ?P = "\<lambda>c. c = CHR ''0''"
  have "rev (rev s) = rev (takeWhile ?P (rev s) @ dropWhile ?P (rev s))"
    by (simp only: takeWhile_dropWhile_id)
  then have s: "s = strip_trailing_zeros s @ rev (takeWhile ?P (rev s))"
    by (simp only: rev_append rev_rev_ident strip_trailing_zeros_def)
  have len: "length s - length (strip_trailing_zeros s) = length (takeWhile ?P (rev s))"
    by (subst s) simp
  have "rev (takeWhile ?P (rev s)) = replicate (length (takeWhile ?P (rev s))) CHR ''0''"
    by (subst takeWhile_eq_replicate) simp
  with s len show ?thesis by simp
qed

lemma strip_trailing_zeros_length: "length (strip_trailing_zeros s) \<le> length s"
  by (simp add: strip_trailing_zeros_def length_dropWhile_le [of _ "rev s", simplified])

lemma strip_trailing_zeros_all_digits:
  "list_all is_digit s \<Longrightarrow> list_all is_digit (strip_trailing_zeros s)"
  by (auto simp: strip_trailing_zeros_def list_all_iff dest: set_dropWhileD)

lemma strip_trailing_zeros_nonempty:
  assumes "digits_val s \<noteq> 0"
  shows "strip_trailing_zeros s \<noteq> []"
proof
  assume e: "strip_trailing_zeros s = []"
  have "digits_val s = digits_val ([] @ replicate (length s) CHR ''0'')"
    using strip_trailing_zeros_decomp [of s] by (simp add: e)
  also have "\<dots> = 0" by (simp only: digits_val_zeros) (simp add: digits_val_def)
  finally show False using assms by simp
qed

lemma takeWhile_digits_then:
  assumes "list_all is_digit ds" "\<not> is_digit c"
  shows "takeWhile is_digit (ds @ c # r) = ds" "dropWhile is_digit (ds @ c # r) = c # r"
  using assms by (induction ds) auto

lemma takeWhile_digits_end:
  assumes "list_all is_digit ds"
  shows "takeWhile is_digit ds = ds" "dropWhile is_digit ds = []"
  using assms by (induction ds) auto

lemma decimal_places_from_int: "decimal_places_from (of_int n) 0 = 0"
  by (subst decimal_places_from.simps) simp


lemma parse_exponent_empty: "parse_exponent [] = Some 0"
  by (simp add: parse_exponent_def)

lemma parse_exponent_plus:
  assumes "0 \<le> e"
  shows "parse_exponent (CHR ''e'' # CHR ''+'' # int_digits e) = Some e"
  using assms
  by (simp add: parse_exponent_def int_digits_nonempty int_digits_all_digits digits_val_int_digits)

lemma parse_unsigned_plain:
  assumes "list_all is_digit ds" "ds \<noteq> []"
  shows "parse_unsigned ds = Some (of_int (digits_val ds))"
  using assms
  by (simp add: parse_unsigned_def takeWhile_digits_end parse_exponent_empty)

lemma parse_unsigned_exp:
  assumes c: "is_digit c" and fs: "list_all is_digit fs" and e: "0 \<le> e"
  shows "parse_unsigned (c # (if fs = [] then [] else CHR ''.'' # fs)
                           @ CHR ''e'' # CHR ''+'' # int_digits e)
         = Some (of_int (digits_val (c # fs)) * power_int 10 (e - int (length fs)))"
proof (cases "fs = []")
  case True
  have ne: "\<not> is_digit CHR ''e''" by (simp add: is_digit_def)
  have tw: "takeWhile is_digit ([c] @ CHR ''e'' # CHR ''+'' # int_digits e) = [c]"
       "dropWhile is_digit ([c] @ CHR ''e'' # CHR ''+'' # int_digits e) = CHR ''e'' # CHR ''+'' # int_digits e"
    using c ne by (simp_all add: takeWhile_digits_then)
  show ?thesis
    using tw True by (simp add: parse_unsigned_def parse_exponent_plus [OF e])
next
  case False
  have ne: "\<not> is_digit CHR ''e''" "\<not> is_digit CHR ''.''" by (simp_all add: is_digit_def)
  have tw1: "takeWhile is_digit ([c] @ CHR ''.'' # fs @ CHR ''e'' # CHR ''+'' # int_digits e) = [c]"
       "dropWhile is_digit ([c] @ CHR ''.'' # fs @ CHR ''e'' # CHR ''+'' # int_digits e)
          = CHR ''.'' # fs @ CHR ''e'' # CHR ''+'' # int_digits e"
    using c ne by (simp_all add: takeWhile_digits_then)
  have tw2: "takeWhile is_digit (fs @ CHR ''e'' # CHR ''+'' # int_digits e) = fs"
       "dropWhile is_digit (fs @ CHR ''e'' # CHR ''+'' # int_digits e) = CHR ''e'' # CHR ''+'' # int_digits e"
    using fs ne by (simp_all add: takeWhile_digits_then)
  show ?thesis
    using tw1 tw2 False by (simp add: parse_unsigned_def parse_exponent_plus [OF e])
qed

lemma Decimal_parse_digit_first:
  assumes "is_digit c"
  shows "Decimal_parse (c # r) = map_option Fin (parse_unsigned (c # r))"
    and "Decimal_parse (CHR ''-'' # c # r) = map_option (\<lambda>v. Fin (- v)) (parse_unsigned (c # r))"
  using is_digit_not_special [OF assms]
  by (simp_all add: Decimal_parse_def option.map_ident cong: option.map_cong)

lemma finite_toString_of_int:
  assumes "0 < n"
  shows "finite_toString (of_int n) = positive_toString n"
    and "finite_toString (- of_int n) = CHR ''-'' # positive_toString n"
proof -
  define ds where "ds = int_digits n"
  define sg where "sg = strip_trailing_zeros ds"
  define e where "e = int (length ds) - 1"
  have len: "0 < length ds" using int_digits_nonempty [of n] by (simp add: ds_def)
  then have e0: "0 \<le> e" by (simp add: e_def)
  have le: "int (length sg) \<le> e + 1"
    using strip_trailing_zeros_length [of ds] by (simp add: sg_def e_def)
  have pad: "sg @ replicate (nat (e + 1) - length sg) CHR ''0'' = ds"
    using strip_trailing_zeros_decomp [of ds] by (simp add: sg_def e_def)
  have abs: "\<bar>of_int n :: rat\<bar> = of_int n" "\<bar>- of_int n :: rat\<bar> = of_int n"
    using assms by simp_all
  have nz: "(of_int n :: rat) \<noteq> 0" "(of_int n :: rat) > 0" using assms by simp_all
  show "finite_toString (of_int n) = positive_toString n"
    using e0 le pad nz
    by (simp add: finite_toString_def positive_toString_def abs decimal_places_from_int Let_def
        ds_def [symmetric] sg_def [symmetric] e_def [symmetric])
  show "finite_toString (- of_int n) = CHR ''-'' # positive_toString n"
    using e0 le pad nz
    by (simp add: finite_toString_def positive_toString_def abs decimal_places_from_int Let_def
        ds_def [symmetric] sg_def [symmetric] e_def [symmetric])
qed

lemma positive_toString_parse:
  assumes "0 < n"
  shows "\<exists>c r. positive_toString n = c # r \<and> is_digit c
           \<and> parse_unsigned (c # r) = Some (of_int n)"
proof -
  define ds where "ds = int_digits n"
  define sg where "sg = strip_trailing_zeros ds"
  define e where "e = int (length ds) - 1"
  have n0: "0 \<le> n" using assms by simp
  have dig: "list_all is_digit ds" using int_digits_all_digits [OF n0] by (simp add: ds_def)
  have val: "digits_val ds = n" using digits_val_int_digits [OF n0] by (simp add: ds_def)
  have ne: "ds \<noteq> []" using int_digits_nonempty [of n] by (simp add: ds_def)
  show ?thesis
  proof (cases "50 \<le> e")
    case False
    obtain c r where cr: "ds = c # r" using ne by (cases ds) auto
    have "is_digit c" using dig cr by simp
    moreover have "parse_unsigned (c # r) = Some (of_int n)"
      using parse_unsigned_plain [OF dig ne] val cr by simp
    moreover have "\<not> 50 < length ds" using False by (simp add: e_def)
    then have "positive_toString n = ds"
      by (simp add: positive_toString_def Let_def ds_def [symmetric])
    ultimately show ?thesis using cr by simp
  next
    case True
    have sgne: "sg \<noteq> []"
      using strip_trailing_zeros_nonempty [of ds] val assms by (simp add: sg_def)
    then obtain c fs where cf: "sg = c # fs" by (cases sg) auto
    have sdig: "list_all is_digit sg"
      using strip_trailing_zeros_all_digits [OF dig] by (simp add: sg_def)
    then have c: "is_digit c" and fs: "list_all is_digit fs" using cf by simp_all
    have e0: "0 \<le> e" using True by simp
    define k where "k = length ds - length sg"
    have dec: "ds = sg @ replicate k CHR ''0''"
      using strip_trailing_zeros_decomp [of ds] by (simp add: sg_def k_def)
    have lens: "length ds = length sg + k" by (subst dec) simp
    have "n = digits_val sg * 10 ^ k"
      using val by (subst (asm) dec) (simp add: digits_val_zeros)
    moreover have "e - int (length fs) = int k" using lens cf by (simp add: e_def)
    ultimately have "of_int (digits_val (c # fs)) * power_int 10 (e - int (length fs)) = (of_int n :: rat)"
      by (simp add: cf)
    then have "parse_unsigned (c # (if fs = [] then [] else CHR ''.'' # fs)
                           @ CHR ''e'' # CHR ''+'' # int_digits e) = Some (of_int n)"
      using parse_unsigned_exp [OF c fs e0] by simp
    moreover have "positive_toString n = c # (if fs = [] then [] else CHR ''.'' # fs)
                           @ CHR ''e'' # CHR ''+'' # int_digits e"
      using True cf
      by (simp add: positive_toString_def Let_def ds_def [symmetric] sg_def [symmetric] e_def)
    ultimately show ?thesis using c by (metis append_Cons)
  qed
qed

lemma Decimal_parse_toString_of_int:
  "Decimal_parse (Decimal_toString (Fin (of_int n))) = Some (Fin (of_int n))"
proof -
  consider "n = 0" | "0 < n" | "n < 0" by linarith
  then show ?thesis
  proof cases
    case 1
    have "is_digit CHR ''0''" by (simp add: is_digit_def)
    then have "Decimal_parse ''0'' = map_option Fin (parse_unsigned ''0'')"
      by (rule Decimal_parse_digit_first)
    also have "parse_unsigned ''0'' = Some 0"
      by (simp add: parse_unsigned_def is_digit_def parse_exponent_def digits_val_def digit_val_def)
    finally show ?thesis using 1 by (simp add: finite_toString_def)
  next
    case 2
    from positive_toString_parse [OF 2] obtain c r where
      cr: "positive_toString n = c # r" "is_digit c" "parse_unsigned (c # r) = Some (of_int n)"
      by blast
    show ?thesis
      using finite_toString_of_int(1) [OF 2] cr Decimal_parse_digit_first(1) [OF cr(2), of r]
      by simp
  next
    case 3
    then have pos: "0 < - n" by simp
    from positive_toString_parse [OF pos] obtain c r where
      cr: "positive_toString (- n) = c # r" "is_digit c" "parse_unsigned (c # r) = Some (of_int (- n))"
      by blast
    have "finite_toString (of_int n) = CHR ''-'' # positive_toString (- n)"
      using finite_toString_of_int(2) [OF pos] by simp
    then show ?thesis
      using cr Decimal_parse_digit_first(2) [OF cr(2), of r] by simp
  qed
qed

section \<open>Evaluation on numerals and lookups in the table\<close>

lemma round_int_numeral [simp]:
  "round_int rm (numeral k) = numeral k"
  "round_int rm (- numeral k) = - numeral k"
  "round_int rm 0 = 0"
  "round_int rm 1 = 1"
  using round_int_of_int [of rm "numeral k"] round_int_of_int [of rm "- numeral k"]
    round_int_of_int [of rm 0] round_int_of_int [of rm 1]
  by simp_all

lemma round_sd_numeral [simp]:
  "numeral k < (10 ^ 40 :: int) \<Longrightarrow> round_sd (numeral k) = numeral k"
  "numeral k < (10 ^ 40 :: int) \<Longrightarrow> round_sd (- numeral k) = - numeral k"
  "round_sd 0 = 0"
  "round_sd 1 = 1"
  using round_sd_of_int [of "numeral k"] round_sd_of_int [of "- numeral k"]
    round_sd_of_int [of 0] round_sd_of_int [of 1]
  by simp_all

lemma double_round_numeral [simp]:
  "numeral k \<le> (2 ^ 53 :: int) \<Longrightarrow> double_round (numeral k) = Num (numeral k)"
  "numeral k \<le> (2 ^ 53 :: int) \<Longrightarrow> double_round (- numeral k) = Num (- numeral k)"
  "double_round 0 = Num 0"
  "double_round 1 = Num 1"
  using double_round_of_int [of "numeral k"] double_round_of_int [of "- numeral k"]
    double_round_of_int [of 0] double_round_of_int [of 1]
  by simp_all

lemma shortest_decimal_numeral [simp]:
  "numeral k \<le> (2 ^ 53 :: int) \<Longrightarrow> shortest_decimal (numeral k) = numeral k"
  "numeral k \<le> (2 ^ 53 :: int) \<Longrightarrow> shortest_decimal (- numeral k) = - numeral k"
  "shortest_decimal 0 = 0"
  "shortest_decimal 1 = 1"
  using shortest_decimal_of_int [of "numeral k"] shortest_decimal_of_int [of "- numeral k"]
    shortest_decimal_of_int [of 0] shortest_decimal_of_int [of 1]
  by simp_all

lemma trunc_of_int: "trunc (of_int n) = n"
  by (simp add: trunc_def)

lemma trunc_numeral [simp]:
  "trunc (numeral k) = numeral k" "trunc (- numeral k) = - numeral k" "trunc 0 = 0" "trunc 1 = 1"
  "trunc (- 1) = - 1"
  using trunc_of_int [of "numeral k"] trunc_of_int [of "- numeral k"] trunc_of_int [of 0]
    trunc_of_int [of 1] trunc_of_int [of "- 1"]
  by simp_all

lemma round_half_even_numeral [simp]:
  "round_half_even (numeral k) = numeral k" "round_half_even (- numeral k) = - numeral k"
  "round_half_even 0 = 0" "round_half_even 1 = 1" "round_half_even (- 1) = - 1"
  using round_half_even_of_int [of "numeral k"] round_half_even_of_int [of "- numeral k"]
    round_half_even_of_int [of 0] round_half_even_of_int [of 1] round_half_even_of_int [of "- 1"]
  by simp_all

lemma minus_one_exact [simp]:
  "round_int rm (- 1) = - 1" "round_sd (- 1) = - 1" "double_round (- 1) = Num (- 1)"
  "shortest_decimal (- 1) = - 1"
  using round_int_of_int [of rm "- 1"] round_sd_of_int [of "- 1"] double_round_of_int [of "- 1"]
    shortest_decimal_of_int [of "- 1"]
  by simp_all

lemma CURRENCIES_USD: "CURRENCIES ''USD'' = Some USD"
  by (simp add: CURRENCIES_def CURRENCIES_entries_def USD_def)

lemma CURRENCIES_EUR: "CURRENCIES ''EUR'' = Some EUR"
  by (simp add: CURRENCIES_def CURRENCIES_entries_def EUR_def)

lemma CURRENCIES_JPY: "CURRENCIES ''JPY'' = Some JPY"
  by (simp add: CURRENCIES_def CURRENCIES_entries_def JPY_def)

lemma CURRENCIES_PHP: "CURRENCIES ''PHP'' = Some PHP"
  by (simp add: CURRENCIES_def CURRENCIES_entries_def)

lemma CURRENCIES_XXX: "CURRENCIES ''XXX'' = None"
  by (simp add: CURRENCIES_def CURRENCIES_entries_def)

lemma currency_fields [simp]:
  "code USD = ''USD''" "code EUR = ''EUR''" "code JPY = ''JPY''" "code PHP = ''PHP''"
  "minorUnits USD = 2" "minorUnits EUR = 2" "minorUnits JPY = 0" "minorUnits PHP = 2"
  by (simp_all add: USD_def EUR_def JPY_def PHP_def)

text \<open>
  \<open>2 ^ 53 + 1\<close> is no binary64 value: it lies halfway between \<open>2 ^ 53\<close> and \<open>2 ^ 53 + 2\<close>
  and rounds to the even one.
\<close>

lemma double_round_2_53_plus_1: "double_round 9007199254740993 = Num 9007199254740992"
  by code_simp

lemma double_round_2_53_plus_2: "double_round 9007199254740994 = Num 9007199254740994"
  by code_simp

section \<open>Claim C2: \<open>allocate\<close> on an empty or zero-sum ratio list\<close>

text \<open>
  Claim C2 says that \<open>allocate\<close> fails on an empty ratio list and on ratios whose sum
  is not positive. \<open>allocate\<close> has no such check and never fails: on the empty list it
  returns no part at all, on \<open>[0, 0]\<close> (sum \<open>0\<close>) and on \<open>[1, -1]\<close> it returns parts whose
  amounts are \<open>NaN\<close> or infinite. Only \<open>evenSplit\<close> rejects a part count that is not
  positive.
\<close>

theorem C2_allocate_never_fails:
  "allocate \<lparr>amount = Fin 100, currency = USD\<rparr> [] = []
   \<and> allocate \<lparr>amount = Fin 100, currency = USD\<rparr> [Num 0, Num 0]
     = [\<lparr>amount = NaN, currency = USD\<rparr>, \<lparr>amount = NaN, currency = USD\<rparr>]
   \<and> allocate \<lparr>amount = Fin 100, currency = USD\<rparr> [Num 1, Num (- 1)]
     = [\<lparr>amount = PInf, currency = USD\<rparr>, \<lparr>amount = NaN, currency = USD\<rparr>]
   \<and> evenSplit \<lparr>amount = Fin 100, currency = USD\<rparr> (Num 0) = Inl InvalidParts"
  by (simp add: allocate_def new_MajikMoney_def signed_inf_def Decimal_sub_def evenSplit_def)

section \<open>Claim C3: division by zero\<close>

text \<open>
  Claim C3 says that every division-like operation fails on a zero divisor. \<open>ratio\<close>
  and \<open>invertDivide\<close> do; \<open>divide\<close> and \<open>convertFromQuoted\<close> have no check and return an
  instance whose amount is infinite (or \<open>NaN\<close> when the amount divided is zero too).
\<close>

theorem C3_divide_by_zero_returns:
  "divide_money \<lparr>amount = Fin 100, currency = USD\<rparr> (Fin 0) ROUND_HALF_EVEN
     = \<lparr>amount = PInf, currency = USD\<rparr>
   \<and> divide_money \<lparr>amount = Fin 0, currency = USD\<rparr> (Fin 0) ROUND_HALF_EVEN
     = \<lparr>amount = NaN, currency = USD\<rparr>
   \<and> convertFromQuoted \<lparr>amount = Fin 100, currency = USD\<rparr> (Fin 0) PHP ROUND_HALF_EVEN
     = Inr \<lparr>amount = PInf, currency = PHP\<rparr>
   \<and> ratio \<lparr>amount = Fin 100, currency = USD\<rparr> \<lparr>amount = Fin 0, currency = USD\<rparr>
     = Inl DivisionByZero
   \<and> invertDivide \<lparr>amount = Fin 0, currency = USD\<rparr> (Fin 2) ROUND_HALF_EVEN
     = Inl DivisionByZero"
  by (simp add: divide_money_def new_MajikMoney_def signed_inf_def convertFromQuoted_def
      convert_def toMajor_def toMajorDecimal_def Decimal_pow10_def fromMajor_def CURRENCIES_PHP
      ratio_def assertSameCurrency_def invertDivide_def)

text \<open>The two operations that do check, for every instance.\<close>

lemma ratio_zero_divisor:
  "Decimal_isZero (amount other) \<Longrightarrow> \<exists>e. ratio this other = Inl e"
  by (simp add: ratio_def assertSameCurrency_def)

lemma invertDivide_zero_amount:
  "amount this = Fin 0 \<Longrightarrow> invertDivide this dividend rounding = Inl DivisionByZero"
  by (simp add: invertDivide_def toMajorDecimal_def Decimal_pow10_def)

section \<open>Claim C5: a currency code that is not in the table\<close>

text \<open>
  Claim C5 says that every factory fails on a code that is not in the table.
  \<open>fromMajor\<close> and \<open>parseFromJSON\<close> do; \<open>fromMinor\<close> passes the \<open>undefined\<close> it looked up
  to the constructor, whose default parameter turns it into the peso.
\<close>

theorem C5_fromMinor_defaults_to_PHP:
  "CURRENCIES ''XXX'' = None
   \<and> fromMinor (Fin 100) ''XXX'' = \<lparr>amount = Fin 100, currency = PHP\<rparr>
   \<and> fromMajor (Fin 1) ''XXX'' ROUND_HALF_EVEN = Inl UnsupportedCurrency"
  by (simp add: fromMinor_def fromMajor_def new_MajikMoney_def CURRENCIES_XXX)

text \<open>
  The same for every code that is not in the table and is not a key that the table
  inherits as an object.
\<close>

lemma unknown_code:
  assumes "CURRENCIES c = None" and "c \<notin> set Object_prototype_keys"
  shows "fromMinor d c = new_MajikMoney d (Some PHP)"
    and "fromMajor d c rm = Inl UnsupportedCurrency"
    and "parseFromJSON \<lparr>json_type = t, json_amount = a, json_currency = CurrencyString c\<rparr>
           = Inl UnsupportedCurrency"
  using assms by (simp_all add: fromMinor_def fromMajor_def parseFromJSON_def new_MajikMoney_def)

section \<open>Claim C8: operations on two currencies\<close>

text \<open>
  Claim C8, as stated, has \<open>equals\<close> fail like the other comparisons. \<open>equals\<close> tests the
  codes itself and answers \<open>false\<close>.
\<close>

theorem C8_counterexample:
  "code (currency \<lparr>amount = Fin 100, currency = USD\<rparr>)
     \<noteq> code (currency \<lparr>amount = Fin 100, currency = EUR\<rparr>)
   \<and> equals \<lparr>amount = Fin 100, currency = USD\<rparr> \<lparr>amount = Fin 100, currency = EUR\<rparr> = False
   \<and> greaterThan_money \<lparr>amount = Fin 100, currency = USD\<rparr> \<lparr>amount = Fin 100, currency = EUR\<rparr>
     = Inl CurrencyMismatch"
  by (simp add: equals_def greaterThan_money_def assertSameCurrency_def)

text \<open>
  Claim C8, amended: on two instances whose currency codes differ, \<open>greaterThan\<close>,
  \<open>lessThan\<close>, \<open>greaterThanOrEqual\<close>, \<open>lessThanOrEqual\<close>, \<open>add\<close> and \<open>subtract\<close> fail
  with the currency mismatch error, and \<open>equals\<close> returns \<open>false\<close>.
\<close>

theorem C8_currency_mismatch:
  assumes "code (currency a) \<noteq> code (currency b)"
  shows "greaterThan_money a b = Inl CurrencyMismatch
    \<and> lessThan_money a b = Inl CurrencyMismatch
    \<and> greaterThanOrEqual a b = Inl CurrencyMismatch
    \<and> lessThanOrEqual a b = Inl CurrencyMismatch
    \<and> add a b = Inl CurrencyMismatch
    \<and> subtract a b = Inl CurrencyMismatch
    \<and> equals a b = False"
  using assms
  by (simp add: greaterThan_money_def lessThan_money_def greaterThanOrEqual_def
      lessThanOrEqual_def add_def subtract_def equals_def assertSameCurrency_def)

text \<open>One hundred dollars against fifty euros.\<close>

theorem C8_witness:
  "greaterThan_money \<lparr>amount = Fin 100, currency = USD\<rparr> \<lparr>amount = Fin 50, currency = EUR\<rparr>
     = Inl CurrencyMismatch
   \<and> add \<lparr>amount = Fin 100, currency = USD\<rparr> \<lparr>amount = Fin 50, currency = EUR\<rparr>
     = Inl CurrencyMismatch
   \<and> equals \<lparr>amount = Fin 100, currency = USD\<rparr> \<lparr>amount = Fin 50, currency = EUR\<rparr> = False"
proof -
  have "code (currency \<lparr>amount = Fin 100, currency = USD\<rparr>)
          \<noteq> code (currency \<lparr>amount = Fin 50, currency = EUR\<rparr>)"
    by (simp add: USD_def EUR_def)
  from C8_currency_mismatch [OF this] show ?thesis by simp
qed

section \<open>Claim C9: \<open>convert\<close> and binary floating point\<close>

text \<open>
  Claim C9 says that \<open>convert\<close> multiplies the exact major-unit value by the rate.
  \<open>convert\<close> takes the value from \<open>toMajor\<close>, a number, where \<open>toMajorDecimal\<close> keeps
  it exact: \<open>2 ^ 53 + 1\<close> yen converted to yen at rate \<open>1\<close> come out as \<open>2 ^ 53\<close> yen, and
  the exact computation the claim describes gives \<open>2 ^ 53 + 1\<close>.
\<close>

theorem C9_convert_goes_through_binary64:
  "convert \<lparr>amount = Fin 9007199254740993, currency = JPY\<rparr> (Fin 1) JPY ROUND_HALF_EVEN
     = Inr \<lparr>amount = Fin 9007199254740992, currency = JPY\<rparr>
   \<and> fromMajor (Decimal_mul (toMajorDecimal \<lparr>amount = Fin 9007199254740993, currency = JPY\<rparr>) (Fin 1))
        (code JPY) ROUND_HALF_EVEN
     = Inr \<lparr>amount = Fin 9007199254740993, currency = JPY\<rparr>"
  by (simp add: convert_def toMajor_def toMajorDecimal_def Decimal_pow10_def fromMajor_def
      new_MajikMoney_def CURRENCIES_JPY double_round_2_53_plus_1)

section \<open>Claim C10: the order \<open>median\<close> sorts by\<close>

text \<open>
  Claim C10 says that \<open>median\<close> sorts by the minor-unit integer. Its comparator
  subtracts the numbers \<open>toMinor\<close> returns, so \<open>2 ^ 53 + 1\<close> and \<open>2 ^ 53\<close> compare equal
  and keep their order: of \<open>2 ^ 53 + 1\<close>, \<open>2 ^ 53\<close> and \<open>2 ^ 53 + 2\<close> yen the median
  returned is \<open>2 ^ 53\<close>, and the middle one by the integers is \<open>2 ^ 53 + 1\<close>, which
  \<open>min\<close> and \<open>max\<close>, comparing the decimals, tell apart from both.
\<close>

theorem C10_median_compares_binary64:
  "fst (median \<lparr>arrays = (\<lambda>_. [])(0 := [\<lparr>amount = Fin 9007199254740993, currency = JPY\<rparr>,
                                             \<lparr>amount = Fin 9007199254740992, currency = JPY\<rparr>,
                                             \<lparr>amount = Fin 9007199254740994, currency = JPY\<rparr>]),
                 next_ref = 1\<rparr> 0)
     = Inr \<lparr>amount = Fin 9007199254740992, currency = JPY\<rparr>
   \<and> min_money [\<lparr>amount = Fin 9007199254740993, currency = JPY\<rparr>,
                \<lparr>amount = Fin 9007199254740992, currency = JPY\<rparr>]
     = Inr \<lparr>amount = Fin 9007199254740992, currency = JPY\<rparr>
   \<and> max_money [\<lparr>amount = Fin 9007199254740993, currency = JPY\<rparr>,
                \<lparr>amount = Fin 9007199254740992, currency = JPY\<rparr>]
     = Inr \<lparr>amount = Fin 9007199254740993, currency = JPY\<rparr>"
  by (simp add: median_def spread_def array_sort_def sort_with_def toMinor_def number_sub_def
      double_round_2_53_plus_1 double_round_2_53_plus_2 Let_def min_money_def max_money_def
      lessThan_money_def greaterThan_money_def assertSameCurrency_def Decimal_gt_def)

text \<open>The caller's array is left as it was: the copy is a fresh array.\<close>

lemma median_leaves_array:
  assumes "r < next_ref h"
  shows "arrays (snd (median h r)) r = arrays h r"
  using assms
  by (auto simp: median_def spread_def array_sort_def Let_def split: list.splits sum.splits)

section \<open>Claim C7: the JSON round trip\<close>

lemma int_digits_lower: "0 < n \<Longrightarrow> 10 ^ (length (int_digits n) - 1) \<le> n"
proof (induction n rule: int_digits.induct)
  case (1 n)
  show ?case
  proof (cases "n < 10")
    case True
    with 1(2) show ?thesis by (subst int_digits.simps) simp
  next
    case False
    then have pos: "0 < n div 10" by simp
    then have IH: "10 ^ (length (int_digits (n div 10)) - 1) \<le> n div 10" using 1 False by simp
    have "0 < length (int_digits (n div 10))" using int_digits_nonempty by simp
    then have "10 ^ length (int_digits (n div 10)) = 10 * (10::int) ^ (length (int_digits (n div 10)) - 1)"
      by (cases "length (int_digits (n div 10))") simp_all
    also have "\<dots> \<le> 10 * (n div 10)" using IH by simp
    also have "\<dots> \<le> n" by simp
    finally show ?thesis using False by (subst int_digits.simps) simp
  qed
qed

lemma positive_toString_plain:
  assumes "0 < n" "n < 10 ^ 50"
  shows "positive_toString n = int_digits n"
proof -
  have "\<not> 50 < length (int_digits n)"
  proof
    assume "50 < length (int_digits n)"
    then have "(10::int) ^ 50 \<le> 10 ^ (length (int_digits n) - 1)"
      by (intro power_increasing) auto
    also have "\<dots> \<le> n" using assms(1) by (rule int_digits_lower)
    finally show False using assms(2) by simp
  qed
  then show ?thesis by (simp add: positive_toString_def Let_def)
qed

lemma Decimal_toString_plain:
  assumes "\<bar>a\<bar> < 10 ^ 50"
  shows "Decimal_toString (Fin (of_int a)) = (if a < 0 then CHR ''-'' # int_digits (- a) else int_digits a)"
proof -
  consider "a = 0" | "0 < a" | "a < 0" by linarith
  then show ?thesis
  proof cases
    case 1
    have "int_digits 0 = ''0''" by code_simp
    then show ?thesis using 1 by (simp add: finite_toString_def)
  next
    case 2
    then show ?thesis
      using assms finite_toString_of_int(1) [OF 2] positive_toString_plain [of a] by simp
  next
    case 3
    then have pos: "0 < - a" by simp
    have "finite_toString (of_int a) = CHR ''-'' # positive_toString (- a)"
      using finite_toString_of_int(2) [OF pos] by simp
    then show ?thesis
      using 3 assms positive_toString_plain [of "- a"] by simp
  qed
qed

lemma Decimal_parse_finite_toString:
  "Decimal_parse (finite_toString (of_int n)) = Some (Fin (of_int n))"
  using Decimal_parse_toString_of_int [of n] by simp

lemma int_digits_upper: "0 \<le> n \<Longrightarrow> n < 10 ^ length (int_digits n)"
proof (induction n rule: int_digits.induct)
  case (1 n)
  show ?case
  proof (cases "n < 10")
    case True
    then show ?thesis by (subst int_digits.simps) simp
  next
    case False
    then have "0 \<le> n div 10" by simp
    then have IH: "n div 10 < 10 ^ length (int_digits (n div 10))" using 1 False by simp
    have "n < 10 * (n div 10 + 1)" by simp
    also have "\<dots> \<le> 10 * 10 ^ length (int_digits (n div 10))"
      using IH by (intro mult_left_mono) simp_all
    finally show ?thesis using False by (subst int_digits.simps) simp
  qed
qed

text \<open>From \<open>10 ^ 50\<close> on the string has the letter \<open>e\<close>, which no decimal string has.\<close>

lemma positive_toString_exponential:
  assumes "10 ^ 50 \<le> n"
  shows "CHR ''e'' \<in> set (positive_toString n)"
proof -
  have n0: "0 \<le> n" using assms by (rule order_trans [rotated]) simp
  have "\<not> length (int_digits n) \<le> 50"
  proof
    assume "length (int_digits n) \<le> 50"
    then have "(10::int) ^ length (int_digits n) \<le> 10 ^ 50"
      by (intro power_increasing) auto
    moreover have "n < 10 ^ length (int_digits n)" using n0 by (rule int_digits_upper)
    ultimately show False using assms by linarith
  qed
  then show ?thesis by (simp add: positive_toString_def Let_def)
qed

lemma decimal_string_no_exponent: "CHR ''e'' \<notin> set (decimal_string a)"
proof -
  have d: "CHR ''e'' \<notin> set (int_digits n)" if "0 \<le> n" for n
  proof
    assume "CHR ''e'' \<in> set (int_digits n)"
    then have "is_digit CHR ''e''"
      using int_digits_all_digits [OF that] by (simp add: list_all_iff)
    then show False by (simp add: is_digit_def)
  qed
  show ?thesis using d [of a] d [of "- a"] by (simp add: decimal_string_def)
qed

lemma Decimal_toString_exponential:
  assumes "10 ^ 50 \<le> \<bar>a\<bar>"
  shows "Decimal_toString (Fin (of_int a)) \<noteq> decimal_string a"
proof -
  have "CHR ''e'' \<in> set (Decimal_toString (Fin (of_int a)))"
  proof (cases "0 < a")
    case True
    then have "10 ^ 50 \<le> a" using assms by simp
    then show ?thesis
      using finite_toString_of_int(1) [OF True] positive_toString_exponential [of a] by simp
  next
    case False
    then have big: "10 ^ 50 \<le> - a" using assms by simp
    then have pos: "0 < - a" by (rule less_le_trans [rotated]) simp
    have "finite_toString (of_int a) = CHR ''-'' # positive_toString (- a)"
      using finite_toString_of_int(2) [OF pos] by simp
    then show ?thesis using positive_toString_exponential [OF big] by simp
  qed
  then show ?thesis using decimal_string_no_exponent [of a] by metis
qed

lemma toString_10_50:
  "finite_toString 100000000000000000000000000000000000000000000000000 = ''1e+50''"
  "decimal_string 100000000000000000000000000000000000000000000000000
     = ''100000000000000000000000000000000000000000000000000''"
  by code_simp+

text \<open>
  Claim C7, as stated, has the amount on the wire as the decimal string of the integer
  for every valid instance. From \<open>10 ^ 50\<close> minor units on it is not: decimal.js is
  configured with \<open>toExpPos: 50\<close> and writes such a value in exponential notation.
\<close>

theorem C7_counterexample:
  "toJSON \<lparr>amount = Fin 100000000000000000000000000000000000000000000000000, currency = PHP\<rparr>
     = \<lparr>json_type = Some ''MajikMoney'', json_amount = AmountString ''1e+50'',
        json_currency = CurrencyString ''PHP''\<rparr>
   \<and> decimal_string 100000000000000000000000000000000000000000000000000
     = ''100000000000000000000000000000000000000000000000000''"
  by (simp add: toJSON_def toString_10_50 PHP_def)

text \<open>
  Claim C7, amended: for a valid instance \<open>m\<close> (an integer amount \<open>a\<close>, the currency an
  entry of the table), \<open>parseFromJSON (toJSON m)\<close> is \<open>m\<close> again, equal to \<open>m\<close> by
  \<open>equals\<close>; and \<open>toJSON m\<close> has the wire shape of the specification, the type tag, the
  currency code and the decimal string of \<open>a\<close>, when \<open>\<bar>a\<bar> < 10 ^ 50\<close>, and only then:
  from \<open>10 ^ 50\<close> on the amount string is not the decimal string of \<open>a\<close>.
\<close>

theorem C7_json_round_trip:
  assumes "amount m = Fin (of_int a)"
    and "CURRENCIES (code (currency m)) = Some (currency m)"
  shows "parseFromJSON (toJSON m) = Inr m
    \<and> equals m m
    \<and> (\<bar>a\<bar> < 10 ^ 50 \<longrightarrow>
         toJSON m = \<lparr>json_type = Some ''MajikMoney'',
                      json_amount = AmountString (decimal_string a),
                      json_currency = CurrencyString (code (currency m))\<rparr>)
    \<and> (10 ^ 50 \<le> \<bar>a\<bar> \<longrightarrow> json_amount (toJSON m) \<noteq> AmountString (decimal_string a))"
proof -
  have "new_MajikMoney (Fin (of_int a)) (Some (currency m)) = m"
    using assms(1) by (simp add: new_MajikMoney_def)
  then have "parseFromJSON (toJSON m) = Inr m"
    using assms by (simp add: parseFromJSON_def toJSON_def Decimal_parse_finite_toString)
  moreover have "equals m m" using assms(1) by (simp add: equals_def)
  moreover have "toJSON m = \<lparr>json_type = Some ''MajikMoney'',
                      json_amount = AmountString (decimal_string a),
                      json_currency = CurrencyString (code (currency m))\<rparr>"
    if "\<bar>a\<bar> < 10 ^ 50"
    using assms(1) Decimal_toString_plain [OF that] by (simp add: toJSON_def decimal_string_def)
  moreover have "json_amount (toJSON m) \<noteq> AmountString (decimal_string a)"
    if "10 ^ 50 \<le> \<bar>a\<bar>"
    using assms(1) Decimal_toString_exponential [OF that] by (simp add: toJSON_def)
  ultimately show ?thesis by blast
qed

lemma toString_123456: "decimal_string 123456 = ''123456''"
  by code_simp

text \<open>The instance of 1234.56 pesos.\<close>

theorem C7_witness:
  "parseFromJSON (toJSON \<lparr>amount = Fin 123456, currency = PHP\<rparr>)
     = Inr \<lparr>amount = Fin 123456, currency = PHP\<rparr>
   \<and> toJSON \<lparr>amount = Fin 123456, currency = PHP\<rparr>
     = \<lparr>json_type = Some ''MajikMoney'', json_amount = AmountString ''123456'',
        json_currency = CurrencyString ''PHP''\<rparr>"
proof -
  let ?m = "\<lparr>amount = Fin 123456, currency = PHP\<rparr>"
  have c: "CURRENCIES (code (currency ?m)) = Some (currency ?m)"
    by (simp add: CURRENCIES_PHP PHP_def)
  have a: "amount ?m = Fin (of_int 123456)" by simp
  note t = C7_json_round_trip [OF a c]
  from t have p: "parseFromJSON (toJSON ?m) = Inr ?m" by (rule conjunct1)
  have small: "\<bar>123456 :: int\<bar> < 10 ^ 50" by simp
  from t small have "toJSON ?m = \<lparr>json_type = Some ''MajikMoney'',
                   json_amount = AmountString (decimal_string 123456),
                   json_currency = CurrencyString (code (currency ?m))\<rparr>"
    by blast
  then have j: "toJSON ?m = \<lparr>json_type = Some ''MajikMoney'', json_amount = AmountString ''123456'',
        json_currency = CurrencyString ''PHP''\<rparr>"
    by (simp add: toString_123456 PHP_def)
  show ?thesis by (rule conjI [OF p j])
qed



section \<open>Claim C6: amounts at rest\<close>

text \<open>Every operation ends in the constructor or hands back an instance it was given.\<close>

lemma toDecimalPlaces_integer:
  "Decimal_isFinite (toDecimalPlaces 0 rm d) \<Longrightarrow> Decimal_isInteger (toDecimalPlaces 0 rm d)"
  by (cases d) simp_all

lemma new_MajikMoney_integer:
  "Decimal_isFinite (amount (new_MajikMoney d c)) \<Longrightarrow> Decimal_isInteger (amount (new_MajikMoney d c))"
  by (simp add: new_MajikMoney_def toDecimalPlaces_integer)

lemma fromMajor_new: "fromMajor d cc rm = Inr m \<Longrightarrow> \<exists>d' c'. m = new_MajikMoney d' c'"
  by (auto simp: fromMajor_def Let_def split: option.splits)

lemma parseFromJSON_new: "parseFromJSON j = Inr m \<Longrightarrow> \<exists>d' c'. m = new_MajikMoney d' c'"
  by (auto simp: parseFromJSON_def split: json_currency.splits option.splits json_amount.splits)

lemma add_new: "add a b = Inr m \<Longrightarrow> \<exists>d' c'. m = new_MajikMoney d' c'"
  by (auto simp: add_def split: sum.splits)

lemma subtract_new: "subtract a b = Inr m \<Longrightarrow> \<exists>d' c'. m = new_MajikMoney d' c'"
  by (auto simp: subtract_def split: sum.splits)

lemma invertDivide_new: "invertDivide a d rm = Inr m \<Longrightarrow> \<exists>d' c'. m = new_MajikMoney d' c'"
  by (auto simp: invertDivide_def Let_def split: if_splits dest: fromMajor_new)

lemma convert_new: "convert a rate t rm = Inr m \<Longrightarrow> \<exists>d' c'. m = new_MajikMoney d' c'"
  by (auto simp: convert_def Let_def dest: fromMajor_new)

lemma convertFromQuoted_new:
  "convertFromQuoted a rate t rm = Inr m \<Longrightarrow> \<exists>d' c'. m = new_MajikMoney d' c'"
  by (auto simp: convertFromQuoted_def Let_def dest: convert_new)

lemma allocate_map_new:
  "m \<in> set (allocate_map this t r ratios) \<Longrightarrow> \<exists>d' c'. m = new_MajikMoney d' c'"
  by (induction ratios arbitrary: r) (auto simp: Let_def)

lemma allocate_new: "m \<in> set (allocate a ratios) \<Longrightarrow> \<exists>d' c'. m = new_MajikMoney d' c'"
  by (auto simp: allocate_def Let_def dest: allocate_map_new)

lemma evenSplit_new:
  "evenSplit a parts = Inr ms \<Longrightarrow> m \<in> set ms \<Longrightarrow> \<exists>d' c'. m = new_MajikMoney d' c'"
  by (auto simp: evenSplit_def split: if_splits number.splits dest: allocate_new)

lemma sum_reduce_new:
  "sum_reduce c acc vs = Inr m \<Longrightarrow> m = acc \<or> (\<exists>d' c'. m = new_MajikMoney d' c')"
proof (induction vs arbitrary: acc)
  case Nil
  then show ?case by simp
next
  case (Cons v vs)
  then show ?case
    by (auto split: if_splits sum.splits dest!: add_new)
qed

lemma sum_money_new:
  assumes "sum_money vs = Inr m"
  shows "\<exists>d' c'. m = new_MajikMoney d' c'"
proof (cases vs)
  case Nil
  with assms show ?thesis by (simp add: sum_money_def)
next
  case (Cons v0 rest)
  with assms have
    "sum_reduce (code (currency v0)) (fromMinor (Fin 0) (code (currency v0))) (v0 # rest) = Inr m"
    by (simp add: sum_money_def del: sum_reduce.simps)
  from sum_reduce_new [OF this] show ?thesis
    by (auto simp: fromMinor_def)
qed

lemma average_new: "average vs = Inr m \<Longrightarrow> \<exists>d' c'. m = new_MajikMoney d' c'"
  by (auto simp: average_def divide_money_def Let_def split: sum.splits)

lemma set_insert_with: "set (insert_with cmp x ys) = insert x (set ys)"
  by (induction ys) auto

lemma length_insert_with: "length (insert_with cmp x ys) = Suc (length ys)"
  by (induction ys) auto

lemma set_sort_with: "set (sort_with cmp xs) = set xs"
  by (induction xs) (simp_all add: sort_with_def set_insert_with)

lemma length_sort_with: "length (sort_with cmp xs) = length xs"
  by (induction xs) (simp_all add: sort_with_def length_insert_with)

lemma median_new:
  assumes "fst (median h r) = Inr m"
  shows "m \<in> set (arrays h r) \<or> (\<exists>d' c'. m = new_MajikMoney d' c')"
proof -
  let ?vs = "arrays h r"
  let ?s = "sort_with (\<lambda>a b. number_sub (toMinor a) (toMinor b)) ?vs"
  from assms have ne: "?vs \<noteq> []" by (auto simp: median_def split: list.splits)
  then have len: "0 < length ?s" by (simp add: length_sort_with)
  have s: "arrays (array_sort (\<lambda>a b. number_sub (toMinor a) (toMinor b)) (snd (spread h r)) (fst (spread h r)))
             (fst (spread h r)) = ?s"
    by (simp add: array_sort_def spread_def)
  show ?thesis
  proof (cases "length ?s mod 2 = 0")
    case True
    with assms ne s show ?thesis
      by (auto simp: median_def Let_def divide_money_def split_beta split: list.splits if_splits sum.splits)
  next
    case False
    have "length ?s div 2 < length ?s" using len by simp
    then have "?s ! (length ?s div 2) \<in> set ?vs"
      using nth_mem [of "length ?s div 2" ?s] by (simp add: set_sort_with)
    with assms ne s False show ?thesis
      by (auto simp: median_def Let_def split_beta split: list.splits if_splits)
  qed
qed

lemma min_reduce_mem: "min_reduce prev rest = Inr m \<Longrightarrow> m \<in> set (prev # rest)"
  by (induction rest arbitrary: prev) (auto split: sum.splits if_splits)

lemma max_reduce_mem: "max_reduce prev rest = Inr m \<Longrightarrow> m \<in> set (prev # rest)"
  by (induction rest arbitrary: prev) (auto split: sum.splits if_splits)

text \<open>
  Claim C6, as stated: every produced instance has an integer amount. The constructor
  rounds a finite value to an integer and passes \<open>NaN\<close> and the infinities through,
  so \<open>fromMinor(NaN, "USD")\<close> is an instance whose amount is not an integer.
\<close>

theorem C6_counterexample:
  "produced (fromMinor NaN ''USD'') \<and> \<not> Decimal_isInteger (amount (fromMinor NaN ''USD''))"
proof
  show "produced (fromMinor NaN ''USD'')" by (rule produced.by_fromMinor)
  show "\<not> Decimal_isInteger (amount (fromMinor NaN ''USD''))"
    by (simp add: fromMinor_def new_MajikMoney_def)
qed

text \<open>
  Claim C6, amended: the amount of every produced instance is an integer whenever it
  is finite.
\<close>

theorem C6_integer_amount_when_finite:
  assumes "produced m" and "Decimal_isFinite (amount m)"
  shows "Decimal_isInteger (amount m)"
  using assms
proof (induction rule: produced.induct)
  case (by_constructor d c)
  then show ?case by (rule new_MajikMoney_integer)
next
  case (by_fromMinor d cc)
  then show ?case unfolding fromMinor_def by (rule new_MajikMoney_integer)
next
  case (by_fromMajor d cc rm m)
  then show ?case using fromMajor_new new_MajikMoney_integer by blast
next
  case (by_parseFromJSON j m)
  then show ?case using parseFromJSON_new new_MajikMoney_integer by blast
next
  case (by_add a b m)
  then show ?case using add_new new_MajikMoney_integer by blast
next
  case (by_subtract a b m)
  then show ?case using subtract_new new_MajikMoney_integer by blast
next
  case (by_multiply a f rm)
  then show ?case unfolding multiply_def Let_def by (intro new_MajikMoney_integer)
next
  case (by_divide a f rm)
  then show ?case unfolding divide_money_def Let_def by (intro new_MajikMoney_integer)
next
  case (by_invertDivide a d rm m)
  then show ?case using invertDivide_new new_MajikMoney_integer by blast
next
  case (by_negate a)
  then show ?case unfolding negate_def by (intro new_MajikMoney_integer)
next
  case (by_abs a)
  then show ?case unfolding abs_money_def by (intro new_MajikMoney_integer)
next
  case (by_allocate a m ratios)
  then show ?case using allocate_new new_MajikMoney_integer by blast
next
  case (by_evenSplit a parts ms m)
  then show ?case using evenSplit_new new_MajikMoney_integer by blast
next
  case (by_convert a rate t rm m)
  then show ?case using convert_new new_MajikMoney_integer by blast
next
  case (by_convertFromQuoted a rate t rm m)
  then show ?case using convertFromQuoted_new new_MajikMoney_integer by blast
next
  case (by_sum vs m)
  then show ?case using sum_money_new new_MajikMoney_integer by blast
next
  case (by_average vs m)
  then show ?case using average_new new_MajikMoney_integer by blast
next
  case (by_median h r m)
  have med: "fst (median h r) = Inr m" by fact
  have IH: "\<And>v. v \<in> set (arrays h r) \<Longrightarrow> Decimal_isFinite (amount v)
              \<Longrightarrow> Decimal_isInteger (amount v)" by fact
  have fin: "Decimal_isFinite (amount m)" by fact
  from median_new [OF med] show ?case
  proof
    assume "m \<in> set (arrays h r)"
    then show ?thesis using IH fin by blast
  next
    assume "\<exists>d' c'. m = new_MajikMoney d' c'"
    then show ?thesis using fin new_MajikMoney_integer by blast
  qed
next
  case (by_min vs m)
  have red: "min_money vs = Inr m" by fact
  have IH: "\<And>v. v \<in> set vs \<Longrightarrow> Decimal_isFinite (amount v) \<Longrightarrow> Decimal_isInteger (amount v)"
    by fact
  have fin: "Decimal_isFinite (amount m)" by fact
  from red obtain v0 rest where "vs = v0 # rest" "min_reduce v0 rest = Inr m"
    by (auto simp: min_money_def split: list.splits)
  then have "m \<in> set vs" using min_reduce_mem by blast
  then show ?case using IH fin by blast
next
  case (by_max vs m)
  have red: "max_money vs = Inr m" by fact
  have IH: "\<And>v. v \<in> set vs \<Longrightarrow> Decimal_isFinite (amount v) \<Longrightarrow> Decimal_isInteger (amount v)"
    by fact
  have fin: "Decimal_isFinite (amount m)" by fact
  from red obtain v0 rest where "vs = v0 # rest" "max_reduce v0 rest = Inr m"
    by (auto simp: max_money_def split: list.splits)
  then have "m \<in> set vs" using max_reduce_mem by blast
  then show ?case using IH fin by blast
qed

text \<open>A third of a cent, and a hundred cents split in three, are stored as integers.\<close>

theorem C6_witness:
  "Decimal_isInteger (amount (multiply (fromMinor (Fin 1) ''USD'') (Fin (1 / 3)) ROUND_HALF_EVEN))
   \<and> Decimal_isInteger (amount (divide_money (fromMinor (Fin 100) ''USD'') (Fin 3) ROUND_HALF_EVEN))"
proof -
  have f1: "Decimal_isFinite (amount (multiply (fromMinor (Fin 1) ''USD'') (Fin (1 / 3)) ROUND_HALF_EVEN))"
    by (simp add: multiply_def fromMinor_def new_MajikMoney_def)
  have f2: "Decimal_isFinite (amount (divide_money (fromMinor (Fin 100) ''USD'') (Fin 3) ROUND_HALF_EVEN))"
    by (simp add: divide_money_def fromMinor_def new_MajikMoney_def)
  show ?thesis
    using C6_integer_amount_when_finite [OF produced.by_multiply [OF produced.by_fromMinor] f1]
      C6_integer_amount_when_finite [OF produced.by_divide [OF produced.by_fromMinor] f2]
    by simp
qed

section \<open>Claim C1: allocation\<close>

subsection \<open>Truncated shares\<close>





lemma of_int_abs_less: "\<bar>x\<bar> < y \<Longrightarrow> \<bar>of_int x :: rat\<bar> < of_int y"
  by (simp only: of_int_abs [symmetric] of_int_less_iff)
















subsection \<open>One share on any ratio\<close>



subsection \<open>The parts, given the shares\<close>


subsection \<open>The running remainders fit forty digits\<close>







subsection \<open>The parts sum to the amount\<close>







subsection \<open>Where the claim as stated fails\<close>











subsection \<open>The median within the exact range of the comparator\<close>

text \<open>
  The comparator of \<open>median\<close> subtracts the amounts as binary64 numbers.  For amounts of
  magnitude at most \<open>2 ^ 52\<close> both conversions and the subtraction are exact, so the
  comparator orders the values as the integers do, the insertion sort is the sort of the integers,
  and the median is the middle element, or the half-even rounded mean of the two middle elements.
\<close>

lemma toMinor_money_of:
  assumes "\<bar>x\<bar> \<le> 2 ^ 52"
  shows "toMinor (money_of c x) = Num (of_int x)"
proof -
  have "\<bar>x\<bar> \<le> 2 ^ 53" using assms by simp
  then show ?thesis using double_round_of_int [of x] by (simp add: toMinor_def money_of_def)
qed

lemma comparator_money_of:
  assumes "\<bar>x\<bar> \<le> 2 ^ 52" "\<bar>y\<bar> \<le> 2 ^ 52"
  shows "cmp_positive (number_sub (toMinor (money_of c x)) (toMinor (money_of c y))) \<longleftrightarrow> \<not> x \<le> y"
proof -
  have "\<bar>x - y\<bar> \<le> 2 ^ 53" using assms by simp
  then have "double_round (of_int (x - y)) = Num (of_int (x - y))" by (rule double_round_of_int)
  then have "number_sub (Num (of_int x)) (Num (of_int y)) = Num (of_int (x - y))"
    by (simp add: number_sub_def)
  then show ?thesis
    by (auto simp: toMinor_money_of [OF assms(1)] toMinor_money_of [OF assms(2)])
qed

lemma insert_with_insort:
  assumes "\<bar>x\<bar> \<le> 2 ^ 52" "\<forall>y \<in> set ys. \<bar>y\<bar> \<le> 2 ^ 52"
  shows "insert_with (\<lambda>a b. number_sub (toMinor a) (toMinor b)) (money_of c x) (map (money_of c) ys)
         = map (money_of c) (insort x ys)"
  using assms(2)
proof (induction ys)
  case Nil
  show ?case by simp
next
  case (Cons y ys)
  then show ?case using comparator_money_of [OF assms(1), of y c] by simp
qed

lemma sort_with_sort:
  assumes "\<forall>x \<in> set xs. \<bar>x\<bar> \<le> 2 ^ 52"
  shows "sort_with (\<lambda>a b. number_sub (toMinor a) (toMinor b)) (map (money_of c) xs)
         = map (money_of c) (sort xs)"
  using assms
proof (induction xs)
  case Nil
  show ?case by (simp add: sort_with_def)
next
  case (Cons x xs)
  have IH: "foldr (insert_with (\<lambda>a b. number_sub (toMinor a) (toMinor b))) (map (money_of c) xs) []
        = map (money_of c) (sort xs)"
    using Cons by (simp add: sort_with_def)
  have "\<forall>y \<in> set (sort xs). \<bar>y\<bar> \<le> 2 ^ 52" using Cons.prems by simp
  then show ?case
    using Cons.prems insert_with_insort [of x "sort xs" c] by (simp add: sort_with_def IH)
qed

lemma half_sum_exact:
  assumes "\<bar>x\<bar> \<le> 2 ^ 52" "\<bar>y\<bar> \<le> 2 ^ 52"
  shows "round_sd (of_int x + of_int y) = of_int (x + y)"
    and "round_sd (of_int (x + y) / 2) = of_int (x + y) / 2"
proof -
  have b: "\<bar>x + y\<bar> \<le> 2 ^ 53" using assms by simp
  then have "\<bar>x + y\<bar> < 10 ^ 40" by simp
  then show "round_sd (of_int x + of_int y) = of_int (x + y)"
    using round_sd_of_int [of "x + y"] by simp
  have e: "(of_int (x + y) :: rat) / 2 = of_int ((x + y) * 5) * power_int 10 (- 1)"
    by (simp add: power_int_minus_divide)
  have "\<bar>(x + y) * 5\<bar> < 10 ^ 39" using b by simp
  then have "\<bar>of_int ((x + y) * 5) :: rat\<bar> < of_int (10 ^ 39)" by (rule of_int_abs_less)
  then have "\<bar>of_int ((x + y) * 5) * power_int (10::rat) (- 1)\<bar> < power_int 10 (- 1 + 40)"
    by (simp add: power_int_minus_divide abs_mult)
  then show "round_sd (of_int (x + y) / 2) = of_int (x + y) / 2"
    unfolding e by (rule round_sd_exact)
qed

lemma median_within_2_52:
  assumes vs: "arrays h r = map (money_of c) xs" and ne: "xs \<noteq> []"
    and small: "\<forall>x \<in> set xs. \<bar>x\<bar> \<le> 2 ^ 52"
  shows "fst (median h r) =
           (if even (length xs)
            then Inr (money_of c (round_half_even
                        (of_int (sort xs ! (length xs div 2 - 1) + sort xs ! (length xs div 2)) / 2)))
            else Inr (money_of c (sort xs ! (length xs div 2))))"
proof -
  let ?s = "sort xs"
  let ?mid = "length xs div 2"
  obtain x0 rest where xs: "xs = x0 # rest" using ne by (cases xs) auto
  have same: "list_all (\<lambda>v. code (currency v) = code (currency (money_of c x0))) (map (money_of c) xs)"
    by (simp add: list_all_iff money_of_def)
  have sorted: "arrays (array_sort (\<lambda>a b. number_sub (toMinor a) (toMinor b)) (snd (spread h r))
                  (fst (spread h r))) (fst (spread h r)) = map (money_of c) ?s"
    using sort_with_sort [OF small, of c] by (simp add: array_sort_def spread_def vs)
  have len: "0 < length xs" using ne by simp
  have mid: "?mid < length xs" using len by simp
  show ?thesis
  proof (cases "even (length xs)")
    case False
    then have odd: "length xs mod 2 \<noteq> 0" by presburger
    have "fst (median h r) = Inr (map (money_of c) ?s ! ?mid)"
      using same sorted odd xs vs
      by (simp add: median_def Let_def split_beta del: sort_key_simps)
    then show ?thesis using False mid by simp
  next
    case True
    then have ev: "length xs mod 2 = 0" by presburger
    have m1: "?mid - 1 < length xs" using mid by (rule less_imp_diff_less)
    define p where "p = ?s ! (?mid - 1)"
    define q where "q = ?s ! ?mid"
    have pm: "p \<in> set xs" "q \<in> set xs"
      using nth_mem [of "?mid - 1" ?s] nth_mem [of ?mid ?s] mid m1 by (simp_all add: p_def q_def)
    then have pq: "\<bar>p\<bar> \<le> 2 ^ 52" "\<bar>q\<bar> \<le> 2 ^ 52" using small by simp_all
    have "add (money_of c p) (money_of c q) = Inr (money_of c (p + q))"
      using half_sum_exact(1) [OF pq]
      by (simp add: add_def assertSameCurrency_def money_of_def new_MajikMoney_def del: of_int_add)
    moreover have "divide_money (money_of c (p + q)) (Fin 2) ROUND_HALF_EVEN
        = money_of c (round_half_even (of_int (p + q) / 2))"
      by (simp add: divide_money_def money_of_def new_MajikMoney_def half_sum_exact(2) [OF pq]
            del: of_int_add)
    ultimately have "fst (median h r)
        = Inr (money_of c (round_half_even (of_int (p + q) / 2)))"
      using same sorted ev xs vs mid m1
      by (simp add: median_def Let_def split_beta p_def q_def del: sort_key_simps of_int_add)
    then show ?thesis using True by (simp add: p_def q_def)
  qed
qed

end
